theory Spec2Isabelle
  imports Main "HOL-Library.AList" "HOL-Library.Multiset"
begin

section \<open>JavaScript values, objects and the heap\<close>

text \<open>
  The directive is generic in the bound value (\<^verbatim>\<open>any\<close>), so values are a small universal
  type. Objects live in a heap and are referred to by address, so that patching one in
  place and building a new one are different things. An object is ordinary and
  extensible: its own properties, in insertion order, are enumerable writable data
  properties, and it has a prototype, which is \<^verbatim>\<open>Object.prototype\<close>, \<^verbatim>\<open>null\<close> or another
  object of the heap. Frozen or sealed objects, accessor properties of an object's own and
  proxies are outside the model.
\<close>

datatype jsval = JSUndefined | JSNull | JSBool bool | JSNumber int | JSString string | JSObject nat

datatype js_error = TypeError

type_synonym props = "(string \<times> jsval) list"

datatype prototype = ObjectPrototype | NullPrototype | PrototypeRef nat

record obj =
  own :: props
  proto :: prototype

type_synonym heap = "obj list"

text \<open>An object literal: the listed properties, prototype \<^verbatim>\<open>Object.prototype\<close>.\<close>

definition plain :: "props \<Rightarrow> obj" where
  "plain ps = \<lparr>own = ps, proto = ObjectPrototype\<rparr>"

definition Object_keys :: "obj \<Rightarrow> string list" where
  "Object_keys ob = map fst (own ob)"

text \<open>The value of an own property; the code reads \<^verbatim>\<open>context[k]\<close> only for own keys \<open>k\<close>.\<close>

definition get_prop :: "obj \<Rightarrow> string \<Rightarrow> jsval" where
  "get_prop ob k = (case map_of (own ob) k of None \<Rightarrow> JSUndefined | Some x \<Rightarrow> x)"

text \<open>Writing an own data property: an existing one keeps its place, a new one is added last.\<close>

definition set_prop :: "obj \<Rightarrow> string \<Rightarrow> jsval \<Rightarrow> obj" where
  "set_prop ob k x = ob\<lparr>own := AList.update k x (own ob)\<rparr>"

text \<open>An address outside the heap stands for \<^verbatim>\<open>null\<close> or \<^verbatim>\<open>undefined\<close>: reading or writing a
  property through it raises TypeError.\<close>

definition deref :: "heap \<Rightarrow> nat \<Rightarrow> obj option" where
  "deref h a = (if a < length h then Some (h ! a) else None)"

definition alloc :: "obj \<Rightarrow> heap \<Rightarrow> nat \<times> heap" where
  "alloc ob h = (length h, h @ [ob])"

definition read_prop :: "nat \<Rightarrow> string \<Rightarrow> heap \<Rightarrow> js_error + jsval" where
  "read_prop a k h = (case deref h a of None \<Rightarrow> Inl TypeError | Some ob \<Rightarrow> Inr (get_prop ob k))"

text \<open>
  An assignment \<^verbatim>\<open>target[k] = x\<close> looks \<open>k\<close> up along the prototype chain of the target.
  The only accessor an ordinary object can meet there is \<^verbatim>\<open>__proto__\<close> of
  \<^verbatim>\<open>Object.prototype\<close>; every other inherited property is a writable data property, and the
  assignment then writes an own property of the target. \<open>inherits_proto_setter\<close> tells
  whether the chain that starts at a prototype reaches that accessor before an object with
  an own property \<^verbatim>\<open>__proto__\<close>. A prototype chain has no cycle, so it is no longer than
  the heap; the first argument bounds the walk.
\<close>

fun inherits_proto_setter :: "nat \<Rightarrow> heap \<Rightarrow> prototype \<Rightarrow> bool" where
  "inherits_proto_setter fuel h ObjectPrototype = True"
| "inherits_proto_setter fuel h NullPrototype = False"
| "inherits_proto_setter 0 h (PrototypeRef b) = False"
| "inherits_proto_setter (Suc fuel) h (PrototypeRef b) =
     (case deref h b of
        None \<Rightarrow> False
      | Some ob \<Rightarrow>
          if map_of (own ob) ''__proto__'' \<noteq> None then False
          else inherits_proto_setter fuel h (proto ob))"

text \<open>Whether the prototype chain that starts at object \<open>b\<close> passes through object \<open>a\<close>.\<close>

fun proto_chain_reaches :: "nat \<Rightarrow> heap \<Rightarrow> nat \<Rightarrow> nat \<Rightarrow> bool" where
  "proto_chain_reaches 0 h b a = (b = a)"
| "proto_chain_reaches (Suc fuel) h b a =
     (b = a \<or>
      (case deref h b of
         None \<Rightarrow> False
       | Some ob \<Rightarrow>
           (case proto ob of
              PrototypeRef b' \<Rightarrow> proto_chain_reaches fuel h b' a
            | ObjectPrototype \<Rightarrow> False
            | NullPrototype \<Rightarrow> False)))"

text \<open>An evaluation that changes the heap ends normally (\<open>None\<close>) or by a throw (\<open>Some\<close>
  the error); either way the heap is as the evaluation left it.\<close>

type_synonym outcome = "js_error option \<times> heap"

text \<open>
  The setter of \<^verbatim>\<open>Object.prototype.__proto__\<close>, called on object \<open>a\<close> with value \<open>x\<close>: a value
  that is neither an object nor \<^verbatim>\<open>null\<close> is ignored; a prototype whose chain passes through
  \<open>a\<close> is refused with a TypeError; else the prototype of \<open>a\<close> is replaced.
\<close>

definition set_prototype :: "nat \<Rightarrow> jsval \<Rightarrow> heap \<Rightarrow> outcome" where
  "set_prototype a x h =
     (case deref h a of
        None \<Rightarrow> (Some TypeError, h)
      | Some ob \<Rightarrow>
          (case x of
             JSObject b \<Rightarrow>
               if proto ob = PrototypeRef b then (None, h)
               else if proto_chain_reaches (length h) h b a then (Some TypeError, h)
               else (None, h[a := ob\<lparr>proto := PrototypeRef b\<rparr>])
           | JSNull \<Rightarrow> (None, h[a := ob\<lparr>proto := NullPrototype\<rparr>])
           | JSUndefined \<Rightarrow> (None, h)
           | JSBool b \<Rightarrow> (None, h)
           | JSNumber i \<Rightarrow> (None, h)
           | JSString s \<Rightarrow> (None, h)))"

text \<open>
  \<^verbatim>\<open>target[k] = x\<close> for the object at \<open>a\<close>. For the key \<^verbatim>\<open>__proto__\<close>, when the target has
  no own property of that name and inherits the accessor, the setter runs and no own
  property is written. In every other case the own property \<open>k\<close> is written.
\<close>

definition assign_prop :: "nat \<Rightarrow> string \<Rightarrow> jsval \<Rightarrow> heap \<Rightarrow> outcome" where
  "assign_prop a k x h =
     (case deref h a of
        None \<Rightarrow> (Some TypeError, h)
      | Some ob \<Rightarrow>
          if k = ''__proto__'' \<and> map_of (own ob) k = None
             \<and> inherits_proto_setter (length h) h (proto ob)
          then set_prototype a x h
          else (None, h[a := set_prop ob k x]))"

text \<open>\<^verbatim>\<open>Array.prototype.forEach\<close> with a callback that mutates the heap; an exception thrown by
  the callback ends the loop.\<close>

fun forEach :: "'a list \<Rightarrow> ('a \<Rightarrow> heap \<Rightarrow> outcome) \<Rightarrow> heap \<Rightarrow> outcome" where
  "forEach [] f h = (None, h)"
| "forEach (k # ks) f h =
     (case f k h of
        (Some e, h') \<Rightarrow> (Some e, h')
      | (None, h') \<Rightarrow> forEach ks f h')"

section \<open>Notifications and template names\<close>

datatype RxNotificationKind = Suspense | Next | Error | Complete

record RxNotification =
  n_value :: jsval
  hasValue :: bool
  kind :: RxNotificationKind
  error :: jsval
  complete :: bool

text \<open>
  \<^verbatim>\<open>const RxScheduleOnTemplateNames = { ...RxBaseTemplateNames, next: 'nextTpl' }\<close>.
  \<^verbatim>\<open>RxBaseTemplateNames\<close> is imported from the cdk; it is the parameter \<open>base\<close>. The
  spread copies its entries, then \<^verbatim>\<open>next\<close> is written (over an entry of the same key, if
  the base had one).
\<close>

definition RxScheduleOnTemplateNames :: "(string \<times> string) list \<Rightarrow> (string \<times> string) list" where
  "RxScheduleOnTemplateNames base = AList.update ''next'' ''nextTpl'' base"

text \<open>
  The lookup object \<^verbatim>\<open>notificationToTemplateName\<close> of \<^verbatim>\<open>_createTemplateManager\<close>: one
  function per notification kind, each \<^verbatim>\<open>() => RxScheduleOnTemplateNames.next\<close>. The manager
  calls the entry with the notification's value and the registered templates; the
  functions take no parameter, so both are ignored. \<open>None\<close> is \<^verbatim>\<open>undefined\<close>.
\<close>

fun notificationToTemplateName ::
  "(string \<times> string) list \<Rightarrow> RxNotificationKind \<Rightarrow> jsval \<Rightarrow> 't \<Rightarrow> string option" where
  "notificationToTemplateName base Suspense val templates = map_of (RxScheduleOnTemplateNames base) ''next''"
| "notificationToTemplateName base Next val templates = map_of (RxScheduleOnTemplateNames base) ''next''"
| "notificationToTemplateName base Error val templates = map_of (RxScheduleOnTemplateNames base) ''next''"
| "notificationToTemplateName base Complete val templates = map_of (RxScheduleOnTemplateNames base) ''next''"


section \<open>View contexts\<close>

text \<open>\<^verbatim>\<open>EmbeddedViewRef<C>\<close>: of the host framework's view only the reference to its context
  object matters here.\<close>

record EmbeddedViewRef =
  view_context :: nat

text \<open>\<^verbatim>\<open>createViewContext(value)\<close> returns an object literal, that is a newly allocated object.\<close>

definition createViewContext :: "jsval \<Rightarrow> heap \<Rightarrow> nat \<times> heap" where
  "createViewContext val h =
     alloc (plain [(''scheduleOn'', val),
                   (''$implicit'', val),
                   (''$error'', JSBool False),
                   (''$complete'', JSBool False),
                   (''$suspense'', JSBool False)]) h"

text \<open>The body of the \<^verbatim>\<open>forEach\<close> callback of \<^verbatim>\<open>updateViewContext\<close>:
  \<^verbatim>\<open>view.context[k] = context[k]\<close>.\<close>

definition copy_key :: "EmbeddedViewRef \<Rightarrow> nat \<Rightarrow> string \<Rightarrow> heap \<Rightarrow> outcome" where
  "copy_key view ctx k h =
     (case read_prop ctx k h of
        Inl e \<Rightarrow> (Some e, h)
      | Inr x \<Rightarrow> assign_prop (view_context view) k x h)"

text \<open>\<^verbatim>\<open>updateViewContext(value, view, context)\<close>: \<^verbatim>\<open>Object.keys(context)\<close> is taken once, then
  each key is copied. The parameter \<^verbatim>\<open>value\<close> is not used by the body.\<close>

definition updateViewContext :: "jsval \<Rightarrow> EmbeddedViewRef \<Rightarrow> nat \<Rightarrow> heap \<Rightarrow> outcome" where
  "updateViewContext val view ctx h =
     (case deref h ctx of
        None \<Rightarrow> (Some TypeError, h)
      | Some c \<Rightarrow> forEach (Object_keys c) (copy_key view ctx) h)"


section \<open>The custom strategy \<^verbatim>\<open>instant\<close>\<close>

text \<open>
  A JavaScript call either returns or throws. A callback \<^verbatim>\<open>() => void\<close> acts on the ambient
  world \<open>'w\<close>; the world is instrumented with the number of times the callback was invoked.
\<close>

datatype 'a completion = Returned 'a | Threw jsval

record 'w instrumented =
  invocations :: nat
  inner :: 'w

definition invoke :: "('w \<Rightarrow> unit completion \<times> 'w) \<Rightarrow> 'w instrumented \<Rightarrow> unit completion \<times> 'w instrumented" where
  "invoke work W =
     (case work (inner W) of
        (r, w') \<Rightarrow> (r, \<lparr>invocations = Suc (invocations W), inner = w'\<rparr>))"

text \<open>\<^verbatim>\<open>behavior: (work) => (o$) => { work(); return o$; }\<close>\<close>

definition instant_behavior ::
  "('w \<Rightarrow> unit completion \<times> 'w) \<Rightarrow> 'o \<Rightarrow> 'w instrumented \<Rightarrow> 'o completion \<times> 'w instrumented" where
  "instant_behavior work o_s W =
     (case invoke work W of
        (Threw e, W') \<Rightarrow> (Threw e, W')
      | (Returned u, W') \<Rightarrow> (Returned o_s, W'))"


section \<open>Stream primitives of the reactive library\<close>

text \<open>
  \<^verbatim>\<open>of(x)\<close> emits \<open>x\<close> synchronously on subscription and completes; a synchronous finite
  stream is the list of the values it delivers.
\<close>

definition rx_of :: "'a \<Rightarrow> 'a list" where
  "rx_of x = [x]"

text \<open>\<^verbatim>\<open>ReplaySubject(bufferSize)\<close> keeps the last \<open>bufferSize\<close> values and replays them,
  synchronously, to every new subscriber.\<close>

record 'a ReplaySubject =
  bufferSize :: nat
  buffer :: "'a list"

definition new_ReplaySubject :: "nat \<Rightarrow> 'a ReplaySubject" where
  "new_ReplaySubject n = \<lparr>bufferSize = n, buffer = []\<rparr>"

definition ReplaySubject_next :: "'a \<Rightarrow> 'a ReplaySubject \<Rightarrow> 'a ReplaySubject" where
  "ReplaySubject_next x s =
     s\<lparr>buffer := (let b = buffer s @ [x] in drop (length b - bufferSize s) b)\<rparr>"

definition ReplaySubject_subscribe :: "'a ReplaySubject \<Rightarrow> 'a list" where
  "ReplaySubject_subscribe s = buffer s"

text \<open>\<^verbatim>\<open>Subscription\<close>: a closed flag and the teardowns added to it. The only teardown the
  directive ever adds is the subscription to the rendered stream.\<close>

datatype teardown = RenderSubscription

record Subscription =
  closed :: bool
  finalizers :: "teardown list"

definition new_Subscription :: Subscription where
  "new_Subscription = \<lparr>closed = False, finalizers = []\<rparr>"


section \<open>The strategy selection stream\<close>

text \<open>What the \<^verbatim>\<open>strategy\<close> input accepts: \<^verbatim>\<open>string | Observable<string> | undefined\<close>.
  A dynamic source is named by a number.\<close>

datatype strategy_input = StrategyName string | StrategyObservable nat | StrategyUndefined

text \<open>Modelled from the spec: the state of the handler \<^verbatim>\<open>coerceAllFactory\<close> returns.\<close>

record StrategyHandler =
  observablesSubject :: "string option ReplaySubject"
  merged :: "nat list"

text \<open>
  Modelled from the spec: \<^verbatim>\<open>coerceAllFactory\<close> of \<^verbatim>\<open>@rx-angular/cdk/coercing\<close> is not among the
  sources. The spec (4.5, 9) describes a cell holding the current strategy name, fed by
  static values and by every dynamic source supplied so far (all merged, the most recent
  emission wins), and replaying the latest name to a new subscriber. The cell is the
  subject built by the factory the directive passes in. \<open>None\<close> is an absent name
  (\<^verbatim>\<open>undefined\<close>).
\<close>

definition coerceAllFactory :: "(unit \<Rightarrow> string option ReplaySubject) \<Rightarrow> StrategyHandler" where
  "coerceAllFactory subjectFactory = \<lparr>observablesSubject = subjectFactory (), merged = []\<rparr>"

text \<open>Modelled from the spec: \<^verbatim>\<open>next\<close> of the handler. A static value (or \<^verbatim>\<open>undefined\<close>) becomes the
  current name; a dynamic source joins the merged sources.\<close>

fun handler_next :: "strategy_input \<Rightarrow> StrategyHandler \<Rightarrow> StrategyHandler" where
  "handler_next (StrategyName s) H =
     H\<lparr>observablesSubject := ReplaySubject_next (Some s) (observablesSubject H)\<rparr>"
| "handler_next StrategyUndefined H =
     H\<lparr>observablesSubject := ReplaySubject_next None (observablesSubject H)\<rparr>"
| "handler_next (StrategyObservable i) H = H\<lparr>merged := i # merged H\<rparr>"

text \<open>Modelled from the spec: a dynamic source that was supplied emits a name.\<close>

definition source_emits :: "nat \<Rightarrow> string \<Rightarrow> StrategyHandler \<Rightarrow> StrategyHandler" where
  "source_emits i s H =
     (if i \<in> set (merged H)
      then H\<lparr>observablesSubject := ReplaySubject_next (Some s) (observablesSubject H)\<rparr>
      else H)"

text \<open>Modelled from the spec: subscribing to \<^verbatim>\<open>values$\<close> yields, at once, what the cell replays.\<close>

definition values_subscribe :: "StrategyHandler \<Rightarrow> string option list" where
  "values_subscribe H = ReplaySubject_subscribe (observablesSubject H)"


section \<open>The template manager\<close>

text \<open>
  Modelled from the spec: \<^verbatim>\<open>createTemplateManager\<close> of \<^verbatim>\<open>@rx-angular/cdk/template\<close> is not
  among the sources; every definition of this section follows sections 3, 4.3, 4.4 and 5
  of the spec. What the spec leaves open is a parameter: the base template names, the
  record the manager hands to the update-context callback for a notification, and the
  timing of the library's own default strategy.
\<close>

text \<open>Modelled from the spec: a strategy runs a commit at once or defers it (4.4).\<close>

datatype timing = Synchronous | Deferred

text \<open>Modelled from the spec: what waits in a coalescing slot, PendingCommit (3).\<close>

fun slot :: "'a option \<Rightarrow> 'a list" where
  "slot None = []"
| "slot (Some p) = [p]"

text \<open>Modelled from the spec: the parameters of the absent library. \<open>patch_of\<close> gives the
  properties of the record handed to the update-context callback, an object literal.\<close>

record cdk =
  RxBaseTemplateNames :: "(string \<times> string) list"
  patch_of :: "RxNotification \<Rightarrow> props"
  library_timing :: timing

text \<open>Modelled from the spec: the errors of section 7, as reported to the error handler.\<close>

datatype tm_error = TemplateNotFound "string option" | ConfigurationError string | ContextError js_error

text \<open>Modelled from the spec: calls of the host framework's view primitives (6); a view is
  named by its context.\<close>

datatype host_call = CreateEmbeddedView nat nat | DestroyView nat

text \<open>Modelled from the spec: ActiveView (3).\<close>

record ActiveView =
  templateName :: string
  contextRef :: nat
  insertionHandle :: EmbeddedViewRef

text \<open>
  Modelled from the spec: the state of a manager. The settings come first; then the
  registered templates, the active view and the coalescing slot; \<open>host_calls\<close>,
  \<open>render_args\<close>, \<open>requested\<close>, \<open>commits\<close>, \<open>discarded\<close> and \<open>handled\<close> record what the manager
  did: the host calls it made, the streams handed to \<^verbatim>\<open>render\<close>, the commit requests, the
  commits that ran, the requests dropped from the slot, and the errors reported.
\<close>

record TemplateManager =
  tm_parent :: bool
  tm_patchZone :: bool
  defaultStrategyName :: string
  strategies :: "(string \<times> timing) list"
  strategy_bound :: bool
  templates :: "(string \<times> nat) list"
  activeView :: "ActiveView option"
  host_calls :: "host_call list"
  render_args :: "RxNotification list list"
  requested :: "RxNotification list"
  pending :: "RxNotification option"
  commits :: "RxNotification list"
  discarded :: "RxNotification list"
  handled :: "tm_error list"

text \<open>Modelled from the spec: a new manager has no template, no view and no pending commit.\<close>

definition createTemplateManager ::
  "bool \<Rightarrow> bool \<Rightarrow> string \<Rightarrow> (string \<times> timing) list \<Rightarrow> TemplateManager" where
  "createTemplateManager par zone dflt strats =
     \<lparr>tm_parent = par, tm_patchZone = zone, defaultStrategyName = dflt, strategies = strats,
      strategy_bound = False, templates = [], activeView = None, host_calls = [],
      render_args = [], requested = [], pending = None, commits = [], discarded = [],
      handled = []\<rparr>"

text \<open>Modelled from the spec: registerTemplate (4.3); a second registration of a name replaces
  the handle unless a view of that name is active, which is a configuration error.\<close>

definition addTemplateRef :: "string \<Rightarrow> nat \<Rightarrow> TemplateManager \<Rightarrow> TemplateManager" where
  "addTemplateRef name handle tm =
     (case map_of (templates tm) name of
        None \<Rightarrow> tm\<lparr>templates := AList.update name handle (templates tm)\<rparr>
      | Some old \<Rightarrow>
          (case activeView tm of
             None \<Rightarrow> tm\<lparr>templates := AList.update name handle (templates tm)\<rparr>
           | Some av \<Rightarrow>
               if templateName av = name
               then tm\<lparr>handled := handled tm @ [ConfigurationError name]\<rparr>
               else tm\<lparr>templates := AList.update name handle (templates tm)\<rparr>))"

text \<open>Modelled from the spec: \<^verbatim>\<open>nextStrategy\<close> binds the manager to the strategy stream.\<close>

definition nextStrategy :: "TemplateManager \<Rightarrow> TemplateManager" where
  "nextStrategy tm = tm\<lparr>strategy_bound := True\<rparr>"

text \<open>Modelled from the spec: the strategy name in force is the latest one of the stream
  (4.4, 4.5).\<close>

definition current_strategy :: "StrategyHandler \<Rightarrow> TemplateManager \<Rightarrow> string option" where
  "current_strategy H tm =
     (if strategy_bound tm
      then (case values_subscribe H of [] \<Rightarrow> None | x # xs \<Rightarrow> last (x # xs))
      else None)"

text \<open>Modelled from the spec: an absent or unregistered name falls back to the default
  strategy, an unregistered one is reported (4.4).\<close>

definition resolve_timing :: "cdk \<Rightarrow> TemplateManager \<Rightarrow> string option \<Rightarrow> timing \<times> tm_error list" where
  "resolve_timing lib tm name =
     (let dflt = (case map_of (strategies tm) (defaultStrategyName tm) of
                    Some t \<Rightarrow> t
                  | None \<Rightarrow> library_timing lib)
      in case name of
           None \<Rightarrow> (dflt, [])
         | Some s \<Rightarrow>
             (case map_of (strategies tm) s of
                Some t \<Rightarrow> (t, [])
              | None \<Rightarrow> (dflt, [ConfigurationError s])))"

text \<open>
  Modelled from the spec: scheduleCommit (4.4); one coalescing slot per anchor. A request
  replaces the payload still waiting in the slot; a synchronous strategy runs the commit
  at once, a deferred one leaves it in the slot. The result lists the rendered events.
\<close>

definition scheduleCommit ::
  "cdk \<Rightarrow> string option \<Rightarrow> RxNotification \<Rightarrow> TemplateManager \<Rightarrow> RxNotification list \<times> TemplateManager" where
  "scheduleCommit lib name payload tm =
     (case resolve_timing lib tm name of
        (t, errs) \<Rightarrow>
          (let tm1 = tm\<lparr>handled := handled tm @ errs,
                        requested := requested tm @ [payload],
                        discarded := discarded tm @ slot (pending tm)\<rparr>
           in case t of
                Synchronous \<Rightarrow> ([payload], tm1\<lparr>pending := None, commits := commits tm1 @ [payload]\<rparr>)
              | Deferred \<Rightarrow> ([], tm1\<lparr>pending := Some payload\<rparr>)))"

text \<open>Modelled from the spec: the deferred strategy fires and the waiting commit runs.\<close>

definition runPending :: "TemplateManager \<Rightarrow> RxNotification list \<times> TemplateManager" where
  "runPending tm =
     (case pending tm of
        None \<Rightarrow> ([], tm)
      | Some p \<Rightarrow> ([p], tm\<lparr>pending := None, commits := commits tm @ [p]\<rparr>))"

text \<open>Modelled from the spec: cancellation (5); teardown clears the slot; the commit that
  waited in it never runs.\<close>

definition tm_cancel :: "TemplateManager \<Rightarrow> TemplateManager" where
  "tm_cancel tm = tm\<lparr>pending := None, discarded := discarded tm @ slot (pending tm)\<rparr>"

text \<open>Modelled from the spec: disposal of the active view (4.3).\<close>

definition dispose :: "TemplateManager \<Rightarrow> TemplateManager" where
  "dispose tm =
     (case activeView tm of
        None \<Rightarrow> tm
      | Some av \<Rightarrow> tm\<lparr>activeView := None, host_calls := host_calls tm @ [DestroyView (contextRef av)]\<rparr>)"

text \<open>Modelled from the spec: a new view, bound to a fresh context built by the context
  factory from the notification (4.3).\<close>

definition createView ::
  "string \<Rightarrow> nat \<Rightarrow> RxNotification \<Rightarrow> TemplateManager \<Rightarrow> heap \<Rightarrow> TemplateManager \<times> heap" where
  "createView name tpl n tm h =
     (case createViewContext (n_value n) h of
        (c, h1) \<Rightarrow>
          (tm\<lparr>activeView := Some \<lparr>templateName = name, contextRef = c,
                                    insertionHandle = \<lparr>view_context = c\<rparr>\<rparr>,
               host_calls := host_calls tm @ [CreateEmbeddedView tpl c]\<rparr>, h1))"

text \<open>Modelled from the spec: create-or-update (4.3). Without an active view, or with one of
  another name, the old view is disposed and a new one created; else the view is reused
  and its context patched in place by the update-context callback.\<close>

definition createOrUpdate ::
  "cdk \<Rightarrow> string \<Rightarrow> nat \<Rightarrow> RxNotification \<Rightarrow> TemplateManager \<Rightarrow> heap
     \<Rightarrow> js_error option \<times> TemplateManager \<times> heap" where
  "createOrUpdate lib name tpl n tm h =
     (case activeView tm of
        None \<Rightarrow> (None, createView name tpl n tm h)
      | Some av \<Rightarrow>
          if templateName av \<noteq> name then (None, createView name tpl n (dispose tm) h)
          else (case alloc (plain (patch_of lib n)) h of
                  (p, h1) \<Rightarrow>
                    (case updateViewContext (n_value n) (insertionHandle av) p h1 of
                       (r, h2) \<Rightarrow> (r, tm, h2))))"

text \<open>Modelled from the spec: render (4.3), for one notification; resolve the template name,
  create or update the view, hand the commit to the coordinator. Failures go to the error
  handler and are not thrown.\<close>

definition tm_notify ::
  "cdk \<Rightarrow> StrategyHandler \<Rightarrow> RxNotification \<Rightarrow> TemplateManager \<times> heap
     \<Rightarrow> RxNotification list \<times> TemplateManager \<times> heap" where
  "tm_notify lib H n st =
     (case st of (tm, h) \<Rightarrow>
        (case notificationToTemplateName (RxBaseTemplateNames lib) (kind n) (n_value n) (templates tm) of
           None \<Rightarrow> ([], tm\<lparr>handled := handled tm @ [TemplateNotFound None]\<rparr>, h)
         | Some name \<Rightarrow>
             (case map_of (templates tm) name of
                None \<Rightarrow> ([], tm\<lparr>handled := handled tm @ [TemplateNotFound (Some name)]\<rparr>, h)
              | Some tpl \<Rightarrow>
                  (case createOrUpdate lib name tpl n tm h of
                     (Some e, tm1, h1) \<Rightarrow>
                       ([], tm1\<lparr>handled := handled tm1 @ [ContextError e]\<rparr>, h1)
                   | (None, tm1, h1) \<Rightarrow>
                       (case scheduleCommit lib (current_strategy H tm1) n tm1 of
                          (evs, tm2) \<Rightarrow> (evs, tm2, h1))))))"

text \<open>Modelled from the spec: notifications are processed in arrival order (5).\<close>

fun tm_feed ::
  "cdk \<Rightarrow> StrategyHandler \<Rightarrow> RxNotification list \<Rightarrow> TemplateManager \<times> heap
     \<Rightarrow> RxNotification list \<times> TemplateManager \<times> heap" where
  "tm_feed lib H [] st = ([], st)"
| "tm_feed lib H (n # ns) st =
     (case tm_notify lib H n st of
        (evs, st1) \<Rightarrow> (case tm_feed lib H ns st1 of (evs', st2) \<Rightarrow> (evs @ evs', st2)))"

text \<open>Modelled from the spec: \<^verbatim>\<open>render(stream)\<close>, subscribed to; the manager notes the stream
  it was handed and processes its notifications in arrival order.\<close>

definition tm_render ::
  "cdk \<Rightarrow> StrategyHandler \<Rightarrow> RxNotification list \<Rightarrow> TemplateManager \<times> heap
     \<Rightarrow> RxNotification list \<times> TemplateManager \<times> heap" where
  "tm_render lib H stream st =
     (case st of (tm, h) \<Rightarrow> tm_feed lib H stream (tm\<lparr>render_args := render_args tm @ [stream]\<rparr>, h))"

text \<open>Modelled from the spec: the views alive in the container after a sequence of host
  calls (6).\<close>

fun host_step :: "nat list \<Rightarrow> host_call \<Rightarrow> nat list" where
  "host_step vs (CreateEmbeddedView tpl c) = vs @ [c]"
| "host_step vs (DestroyView c) = remove1 c vs"

definition live_views :: "host_call list \<Rightarrow> nat list" where
  "live_views cs = foldl host_step [] cs"

fun is_create :: "host_call \<Rightarrow> bool" where
  "is_create (CreateEmbeddedView tpl c) = True"
| "is_create (DestroyView c) = False"


section \<open>The directive\<close>

text \<open>The injected \<^verbatim>\<open>RxStrategyProvider\<close>, as far as the directive reads it.\<close>

record RxStrategyProvider =
  primaryStrategy :: string
  provider_strategies :: "(string \<times> timing) list"
  config_patchZone :: bool

text \<open>
  The fields of \<^verbatim>\<open>ScheduleOnDirective\<close>. The change detector, element, zone, view container
  and error handler are opaque handles of the host framework and are left out: what the
  manager does with them is in its own record. \<open>renderObserver\<close> is \<^verbatim>\<open>_renderObserver\<close>, an
  observer named by a number (\<open>None\<close>: not set). \<open>rendered_s\<close> lists the values emitted on
  \<^verbatim>\<open>rendered$\<close>, which is what a subscriber of the output \<^verbatim>\<open>rendered = defer(() => rendered$)\<close>
  receives from its subscription on; \<open>observer_calls\<close> lists the calls of \<^verbatim>\<open>next\<close> on render
  observers; \<open>delivering\<close> tells whether the subscriber of \<^verbatim>\<open>ngOnInit\<close> is attached to the
  rendered stream.
\<close>

record Directive =
  strategyProvider :: RxStrategyProvider
  nextTemplateRef :: nat
  renderObserver :: "nat option"
  renderParent :: bool
  patchZone :: bool
  strategyHandler :: StrategyHandler
  subscription :: Subscription
  templateManager :: "TemplateManager option"
  rendered_s :: "RxNotification list"
  observer_calls :: "(nat \<times> RxNotification) list"
  delivering :: bool

text \<open>The constructor and the field initialisers.\<close>

definition new_ScheduleOnDirective :: "RxStrategyProvider \<Rightarrow> nat \<Rightarrow> Directive" where
  "new_ScheduleOnDirective provider tpl =
     \<lparr>strategyProvider = provider,
      nextTemplateRef = tpl,
      renderObserver = None,
      renderParent = True,
      patchZone = config_patchZone provider,
      strategyHandler = coerceAllFactory (\<lambda>u. new_ReplaySubject 1),
      subscription = new_Subscription,
      templateManager = None,
      rendered_s = [],
      observer_calls = [],
      delivering = False\<rparr>"

text \<open>The input setters.\<close>

definition set_strategy :: "strategy_input \<Rightarrow> Directive \<Rightarrow> Directive" where
  "set_strategy strategyName d = d\<lparr>strategyHandler := handler_next strategyName (strategyHandler d)\<rparr>"

definition set_renderCallback :: "nat option \<Rightarrow> Directive \<Rightarrow> Directive" where
  "set_renderCallback callback d = d\<lparr>renderObserver := callback\<rparr>"

definition set_renderParent :: "bool \<Rightarrow> Directive \<Rightarrow> Directive" where
  "set_renderParent b d = d\<lparr>renderParent := b\<rparr>"

definition set_patchZone :: "bool \<Rightarrow> Directive \<Rightarrow> Directive" where
  "set_patchZone b d = d\<lparr>patchZone := b\<rparr>"

text \<open>\<^verbatim>\<open>_createTemplateManager\<close> (\<open>createTemplateManager_of\<close>; \<open>configured_manager\<close> is the manager
  it builds): the settings are read from the fields, the main template is registered under
  \<^verbatim>\<open>RxScheduleOnTemplateNames.next\<close>, the strategy stream is bound.\<close>

definition configured_manager :: "cdk \<Rightarrow> Directive \<Rightarrow> TemplateManager" where
  "configured_manager lib d =
     (let tm = createTemplateManager (renderParent d) (patchZone d)
                 (primaryStrategy (strategyProvider d)) (provider_strategies (strategyProvider d));
          tm1 = (case map_of (RxScheduleOnTemplateNames (RxBaseTemplateNames lib)) ''next'' of
                   None \<Rightarrow> tm
                 | Some name \<Rightarrow> addTemplateRef name (nextTemplateRef d) tm)
      in nextStrategy tm1)"

definition createTemplateManager_of :: "cdk \<Rightarrow> Directive \<Rightarrow> Directive" where
  "createTemplateManager_of lib d = d\<lparr>templateManager := Some (configured_manager lib d)\<rparr>"

definition ngOnChanges :: "cdk \<Rightarrow> Directive \<Rightarrow> Directive" where
  "ngOnChanges lib d =
     (case templateManager d of
        None \<Rightarrow> createTemplateManager_of lib d
      | Some tm \<Rightarrow> d)"

text \<open>The subscriber of \<^verbatim>\<open>ngOnInit\<close>:
  \<^verbatim>\<open>(n) => { this.rendered$.next(n); this._renderObserver?.next(n); }\<close>\<close>

definition on_rendered :: "RxNotification \<Rightarrow> Directive \<Rightarrow> Directive" where
  "on_rendered n d =
     d\<lparr>rendered_s := rendered_s d @ [n],
       observer_calls := (case renderObserver d of
                            None \<Rightarrow> observer_calls d
                          | Some ob \<Rightarrow> observer_calls d @ [(ob, n)])\<rparr>"

fun deliver :: "RxNotification list \<Rightarrow> Directive \<Rightarrow> Directive" where
  "deliver [] d = d"
| "deliver (n # ns) d = deliver ns (on_rendered n d)"

text \<open>Running a teardown: the subscriber is detached and the manager's pending commit is
  cancelled.\<close>

fun exec_teardown :: "teardown \<Rightarrow> Directive \<Rightarrow> Directive" where
  "exec_teardown RenderSubscription d =
     d\<lparr>delivering := False, templateManager := map_option tm_cancel (templateManager d)\<rparr>"

fun exec_teardowns :: "teardown list \<Rightarrow> Directive \<Rightarrow> Directive" where
  "exec_teardowns [] d = d"
| "exec_teardowns (t # ts) d = exec_teardowns ts (exec_teardown t d)"

text \<open>\<^verbatim>\<open>Subscription.add\<close>: a closed subscription runs the teardown at once.\<close>

definition Subscription_add :: "teardown \<Rightarrow> Directive \<Rightarrow> Directive" where
  "Subscription_add t d =
     (if closed (subscription d) then exec_teardown t d
      else d\<lparr>subscription := (subscription d)\<lparr>finalizers := finalizers (subscription d) @ [t]\<rparr>\<rparr>)"

text \<open>\<^verbatim>\<open>Subscription.unsubscribe\<close>: nothing when closed already; else the subscription is
  closed and its teardowns run once.\<close>

definition Subscription_unsubscribe :: "Directive \<Rightarrow> Directive" where
  "Subscription_unsubscribe d =
     (if closed (subscription d) then d
      else exec_teardowns (finalizers (subscription d))
             (d\<lparr>subscription := \<lparr>closed = True, finalizers = []\<rparr>\<rparr>))"

text \<open>
  \<^verbatim>\<open>ngOnInit\<close>. \<^verbatim>\<open>this.templateManager.render\<close> on a manager that was never created is a
  TypeError. The stream is \<^verbatim>\<open>of({value: true, hasValue: true, kind: Next, error: false,
  complete: false})\<close>; subscribing processes it synchronously, the rendered events that
  are already due reach the subscriber, and the subscription is added to
  \<^verbatim>\<open>this.subscription\<close>.
\<close>

definition ngOnInit :: "cdk \<Rightarrow> Directive \<times> heap \<Rightarrow> js_error + Directive \<times> heap" where
  "ngOnInit lib st =
     (case st of (d, h) \<Rightarrow>
        (case templateManager d of
           None \<Rightarrow> Inl TypeError
         | Some tm \<Rightarrow>
             (case tm_render lib (strategyHandler d)
                     (rx_of \<lparr>n_value = JSBool True, hasValue = True, kind = Next,
                             error = JSBool False, complete = False\<rparr>) (tm, h) of
                (evs, tm1, h1) \<Rightarrow>
                  Inr (Subscription_add RenderSubscription
                         (deliver evs (d\<lparr>templateManager := Some tm1, delivering := True\<rparr>)), h1))))"

definition ngOnDestroy :: "Directive \<Rightarrow> Directive" where
  "ngOnDestroy d = Subscription_unsubscribe d"

text \<open>
  What happens at the anchor while the subscriber is attached: a notification arrives on
  the stream handed to \<^verbatim>\<open>render\<close>, or the deferred strategy fires. Each rendered event of
  the manager is passed to the subscriber. The directive's own stream holds the one
  notification processed within \<^verbatim>\<open>ngOnInit\<close>; \<open>Arrive\<close> stands for a stream that holds more.
\<close>

datatype anchor_event = Arrive RxNotification | Tick

definition anchor_step :: "cdk \<Rightarrow> anchor_event \<Rightarrow> Directive \<times> heap \<Rightarrow> Directive \<times> heap" where
  "anchor_step lib ev st =
     (case st of (d, h) \<Rightarrow>
        if \<not> delivering d then (d, h)
        else (case templateManager d of
                None \<Rightarrow> (d, h)
              | Some tm \<Rightarrow>
                  (case (case ev of
                           Arrive n \<Rightarrow> tm_notify lib (strategyHandler d) n (tm, h)
                         | Tick \<Rightarrow> (case runPending tm of (evs, tm1) \<Rightarrow> (evs, tm1, h))) of
                     (evs, tm1, h1) \<Rightarrow> (deliver evs (d\<lparr>templateManager := Some tm1\<rparr>), h1))))"

fun anchor_run :: "cdk \<Rightarrow> anchor_event list \<Rightarrow> Directive \<times> heap \<Rightarrow> Directive \<times> heap" where
  "anchor_run lib [] st = st"
| "anchor_run lib (ev # evs) st = anchor_run lib evs (anchor_step lib ev st)"

text \<open>What reaches the strategy input over time: an assignment, or an emission of a dynamic
  source.\<close>

datatype strategy_event = Assign strategy_input | Emits nat string

fun strategy_step :: "strategy_event \<Rightarrow> Directive \<Rightarrow> Directive" where
  "strategy_step (Assign x) d = set_strategy x d"
| "strategy_step (Emits i s) d = d\<lparr>strategyHandler := source_emits i s (strategyHandler d)\<rparr>"

fun strategy_run :: "strategy_event list \<Rightarrow> Directive \<Rightarrow> Directive" where
  "strategy_run [] d = d"
| "strategy_run (e # es) d = strategy_run es (strategy_step e d)"

text \<open>The names supplied by a sequence of strategy events, given the dynamic sources known
  before it, in order of arrival.\<close>

fun supplied :: "nat list \<Rightarrow> strategy_event list \<Rightarrow> string option list" where
  "supplied srcs [] = []"
| "supplied srcs (Assign (StrategyName s) # es) = Some s # supplied srcs es"
| "supplied srcs (Assign StrategyUndefined # es) = None # supplied srcs es"
| "supplied srcs (Assign (StrategyObservable i) # es) = supplied (i # srcs) es"
| "supplied srcs (Emits i s # es) =
     (if i \<in> set srcs then Some s # supplied srcs es else supplied srcs es)"

text \<open>The streams the manager of a directive was handed by its \<^verbatim>\<open>render\<close> calls, in the
  outcome of a lifecycle hook.\<close>

definition rendered_streams :: "js_error + Directive \<times> heap \<Rightarrow> RxNotification list list" where
  "rendered_streams r =
     (case r of
        Inl e \<Rightarrow> []
      | Inr (d, h) \<Rightarrow> (case templateManager d of None \<Rightarrow> [] | Some tm \<Rightarrow> render_args tm))"

text \<open>The property of a notification sequence the spec asks of a bound source (4.1, 8.2):
  one Suspense, first, and none after it.\<close>

fun suspense_first_once :: "RxNotification list \<Rightarrow> bool" where
  "suspense_first_once [] = False"
| "suspense_first_once (n # ns) = (kind n = Suspense \<and> list_all (\<lambda>m. kind m \<noteq> Suspense) ns)"


definition is_suspense :: "RxNotification \<Rightarrow> bool" where
  "is_suspense n = (kind n = Suspense)"


section \<open>An example configuration\<close>

text \<open>
  The provider is the one the demo application configures: primary strategy \<^verbatim>\<open>normal\<close>, zone
  patching on, and the custom strategy \<^verbatim>\<open>instant\<close>, which runs its work at once. For the
  parameters of the cdk the example takes the base names \<^verbatim>\<open>errorTpl\<close>, \<^verbatim>\<open>completeTpl\<close>,
  \<^verbatim>\<open>suspenseTpl\<close> and a patch that carries the value and the three flags of the spec's
  view context.
\<close>

definition flags_patch :: "RxNotification \<Rightarrow> props" where
  "flags_patch n =
     [(''$implicit'', n_value n), (''$error'', error n), (''$complete'', JSBool (complete n)),
      (''$suspense'', JSBool (kind n = Suspense))]"

definition example_cdk :: cdk where
  "example_cdk =
     \<lparr>RxBaseTemplateNames =
        [(''error'', ''errorTpl''), (''complete'', ''completeTpl''), (''suspense'', ''suspenseTpl'')],
      patch_of = flags_patch, library_timing = Deferred\<rparr>"

definition example_provider :: RxStrategyProvider where
  "example_provider =
     \<lparr>primaryStrategy = ''normal'',
      provider_strategies = [(''normal'', Deferred), (''instant'', Synchronous)],
      config_patchZone = True\<rparr>"

text \<open>A directive with a render callback (observer 1), after its first \<^verbatim>\<open>ngOnChanges\<close>.\<close>

definition example_directive :: Directive where
  "example_directive =
     ngOnChanges example_cdk (set_renderCallback (Some 1) (new_ScheduleOnDirective example_provider 0))"

definition next_of :: "jsval \<Rightarrow> RxNotification" where
  "next_of v = \<lparr>n_value = v, hasValue = True, kind = Next, error = JSBool False, complete = False\<rparr>"


section \<open>Bookkeeping of commits\<close>

text \<open>
  Between two states of the manager, \<open>new\<close> are the commits that ran. Every commit request
  made in between, and the one that waited before, either ran, or was dropped from the
  slot without running, or waits now.
\<close>

definition accounted :: "TemplateManager \<Rightarrow> TemplateManager \<Rightarrow> RxNotification list \<Rightarrow> bool" where
  "accounted tm tm' new =
     (commits tm' = commits tm @ new \<and>
      (\<exists>R D. requested tm' = requested tm @ R \<and> discarded tm' = discarded tm @ D \<and>
             mset R + mset (slot (pending tm)) = mset new + mset D + mset (slot (pending tm'))))"

text \<open>Between two states of the directive, the values \<open>new\<close> were emitted on \<^verbatim>\<open>rendered$\<close> and
  passed to the render observer, if one is configured.\<close>

definition reported :: "Directive \<Rightarrow> Directive \<Rightarrow> RxNotification list \<Rightarrow> bool" where
  "reported d d' new =
     (rendered_s d' = rendered_s d @ new \<and>
      observer_calls d' =
        observer_calls d @ (case renderObserver d of None \<Rightarrow> [] | Some ob \<Rightarrow> map (Pair ob) new) \<and>
      renderObserver d' = renderObserver d)"

section \<open>Heap lemmas\<close>

lemma deref_update_same: "deref h a = Some ob \<Longrightarrow> deref (h[a := ob']) a = Some ob'"
  by (auto simp: deref_def split: if_splits)

lemma deref_update_other: "a \<noteq> b \<Longrightarrow> deref (h[b := ob']) a = deref h a"
  by (auto simp: deref_def)

lemma set_prototype_effect:
  assumes "deref h a = Some ob" and "set_prototype a x h = (r, h')"
  shows "length h' = length h"
    and "\<forall>b. b \<noteq> a \<longrightarrow> deref h' b = deref h b"
    and "\<exists>ob'. deref h' a = Some ob' \<and> own ob' = own ob"
proof -
  from assms have "h' = h \<or> (\<exists>p. h' = h[a := ob\<lparr>proto := p\<rparr>])"
    by (cases x) (auto simp: set_prototype_def split: if_splits)
  then show "length h' = length h"
    and "\<forall>b. b \<noteq> a \<longrightarrow> deref h' b = deref h b"
    and "\<exists>ob'. deref h' a = Some ob' \<and> own ob' = own ob"
    using assms(1) by (auto simp: deref_update_other deref_update_same)
qed

lemma assign_prop_write:
  assumes "deref h a = Some ob" and "k \<noteq> ''__proto__'' \<or> map_of (own ob) k \<noteq> None"
  shows "assign_prop a k x h = (None, h[a := set_prop ob k x])"
  using assms by (auto simp: assign_prop_def)

lemma assign_prop_effect:
  assumes "deref h a = Some ob" and "assign_prop a k x h = (r, h')"
  shows "length h' = length h
    \<and> (\<forall>b. b \<noteq> a \<longrightarrow> deref h' b = deref h b)
    \<and> (\<exists>ob'. deref h' a = Some ob'
           \<and> (\<forall>k'. k' \<noteq> k \<longrightarrow> map_of (own ob') k' = map_of (own ob) k')
           \<and> ((k \<noteq> ''__proto__'' \<or> map_of (own ob) k \<noteq> None) \<longrightarrow>
                 r = None \<and> map_of (own ob') k = Some x \<and> proto ob' = proto ob))"
proof (cases "k = ''__proto__'' \<and> map_of (own ob) k = None
             \<and> inherits_proto_setter (length h) h (proto ob)")
  case True
  with assms have s: "set_prototype a x h = (r, h')" by (auto simp: assign_prop_def)
  note e = set_prototype_effect[OF assms(1) s]
  from e(3) True have "\<exists>ob'. deref h' a = Some ob'
           \<and> (\<forall>k'. k' \<noteq> k \<longrightarrow> map_of (own ob') k' = map_of (own ob) k')
           \<and> ((k \<noteq> ''__proto__'' \<or> map_of (own ob) k \<noteq> None) \<longrightarrow>
                 r = None \<and> map_of (own ob') k = Some x \<and> proto ob' = proto ob)"
    by auto
  with e(1,2) show ?thesis by blast
next
  case False
  with assms have w: "r = None" "h' = h[a := set_prop ob k x]"
    by (auto simp: assign_prop_def)
  have l: "length h' = length h" using w by simp
  have o: "\<forall>b. b \<noteq> a \<longrightarrow> deref h' b = deref h b" using w by (simp add: deref_update_other)
  have "deref h' a = Some (set_prop ob k x)"
    using w assms(1) by (simp add: deref_update_same)
  moreover have "\<forall>k'. k' \<noteq> k \<longrightarrow> map_of (own (set_prop ob k x)) k' = map_of (own ob) k'"
    by (simp add: set_prop_def AList.update_conv')
  moreover have "map_of (own (set_prop ob k x)) k = Some x" "proto (set_prop ob k x) = proto ob"
    by (simp_all add: set_prop_def AList.update_conv')
  ultimately have "\<exists>ob'. deref h' a = Some ob'
           \<and> (\<forall>k'. k' \<noteq> k \<longrightarrow> map_of (own ob') k' = map_of (own ob) k')
           \<and> ((k \<noteq> ''__proto__'' \<or> map_of (own ob) k \<noteq> None) \<longrightarrow>
                 r = None \<and> map_of (own ob') k = Some x \<and> proto ob' = proto ob)"
    using w(1) by blast
  with l o show ?thesis by blast
qed

lemma copy_key_effect:
  assumes "deref h (view_context view) = Some v1" and "deref h ctx = Some c1"
    and "map_of (own c1) k = Some y"
    and "copy_key view ctx k h = (r, h2)"
  shows "length h2 = length h
    \<and> (\<forall>b. b \<noteq> view_context view \<longrightarrow> deref h2 b = deref h b)
    \<and> (\<exists>v2. deref h2 (view_context view) = Some v2
           \<and> (\<forall>k'. k' \<noteq> k \<longrightarrow> map_of (own v2) k' = map_of (own v1) k')
           \<and> ((k \<noteq> ''__proto__'' \<or> map_of (own v1) k \<noteq> None) \<longrightarrow>
                 r = None \<and> map_of (own v2) k = Some y \<and> proto v2 = proto v1))"
proof -
  from assms(2,3) have "read_prop ctx k h = Inr y"
    by (simp add: read_prop_def get_prop_def)
  with assms(4) have a: "assign_prop (view_context view) k y h = (r, h2)"
    by (simp add: copy_key_def)
  from assign_prop_effect[OF assms(1) a] show ?thesis .
qed

text \<open>The loop of \<^verbatim>\<open>updateViewContext\<close>, started anywhere in the key list: \<open>c\<close> is the supplied
  context as it was when the keys were taken, \<open>c1\<close> what the heap holds for it now (the two
  differ only when the supplied context is the view's own).\<close>

lemma forEach_copy_key:
  assumes "deref h1 (view_context view) = Some v1" and "deref h1 ctx = Some c1"
    and "set ks \<subseteq> set (map fst (own c))"
    and "\<forall>k \<in> set (map fst (own c)). map_of (own c1) k = map_of (own c) k"
    and "forEach ks (copy_key view ctx) h1 = (r, h')"
  shows "length h' = length h1
    \<and> (\<forall>a. a \<noteq> view_context view \<longrightarrow> deref h' a = deref h1 a)
    \<and> (\<exists>v'. deref h' (view_context view) = Some v'
          \<and> (\<forall>k. k \<notin> set ks \<longrightarrow> map_of (own v') k = map_of (own v1) k)
          \<and> (r = None \<longrightarrow> (\<forall>k \<in> set ks. k \<noteq> ''__proto__'' \<longrightarrow> map_of (own v') k = map_of (own c) k))
          \<and> (''__proto__'' \<notin> set ks \<longrightarrow> r = None \<and> proto v' = proto v1))"
  using assms
proof (induction ks arbitrary: h1 v1 c1)
  case Nil
  then show ?case by simp
next
  case (Cons k ks)
  let ?va = "view_context view"
  from Cons.prems(3) have kin: "k \<in> set (map fst (own c))" by auto
  then obtain y where y: "map_of (own c) k = Some y"
    by (metis domIff dom_map_of_conv_image_fst list.set_map not_Some_eq)
  have c1k: "map_of (own c1) k = Some y" using Cons.prems(4) kin y by metis
  obtain r1 h2 where step: "copy_key view ctx k h1 = (r1, h2)"
    by (cases "copy_key view ctx k h1")
  from copy_key_effect[OF Cons.prems(1,2) c1k step] obtain v2 where
    s: "length h2 = length h1"
       "\<forall>b. b \<noteq> ?va \<longrightarrow> deref h2 b = deref h1 b"
       "deref h2 ?va = Some v2"
       "\<forall>k'. k' \<noteq> k \<longrightarrow> map_of (own v2) k' = map_of (own v1) k'"
       "(k \<noteq> ''__proto__'' \<or> map_of (own v1) k \<noteq> None) \<longrightarrow>
                 r1 = None \<and> map_of (own v2) k = Some y \<and> proto v2 = proto v1"
    by blast
  show ?case
  proof (cases r1)
    case (Some e)
    with Cons.prems(5) step have res: "r = Some e" "h' = h2" by simp_all
    have "k = ''__proto__''" using s(5) Some by auto
    with res s show ?thesis by auto
  next
    case None
    with Cons.prems(5) step have run: "forEach ks (copy_key view ctx) h2 = (r, h')" by simp
    obtain c2 where c2: "deref h2 ctx = Some c2"
      and c2inv: "\<forall>k' \<in> set (map fst (own c)). map_of (own c2) k' = map_of (own c) k'"
    proof (cases "ctx = ?va")
      case True
      with Cons.prems(1,2) have eq: "c1 = v1" by simp
      with c1k s(5) have "map_of (own v2) k = Some y" by simp
      with s(4) eq Cons.prems(4) y have "\<forall>k' \<in> set (map fst (own c)). map_of (own v2) k' = map_of (own c) k'"
        by metis
      with True s(3) that show ?thesis by simp
    next
      case False
      with Cons.prems(2,4) s(2) that show ?thesis by simp
    qed
    from Cons.prems(3) have sub: "set ks \<subseteq> set (map fst (own c))" by simp
    from Cons.IH[OF s(3) c2 sub c2inv run] obtain v' where
      i: "length h' = length h2"
         "\<forall>a. a \<noteq> ?va \<longrightarrow> deref h' a = deref h2 a"
         "deref h' ?va = Some v'"
         "\<forall>k'. k' \<notin> set ks \<longrightarrow> map_of (own v') k' = map_of (own v2) k'"
         "r = None \<longrightarrow> (\<forall>k' \<in> set ks. k' \<noteq> ''__proto__'' \<longrightarrow> map_of (own v') k' = map_of (own c) k')"
         "''__proto__'' \<notin> set ks \<longrightarrow> r = None \<and> proto v' = proto v2"
      by blast
    have a: "\<forall>k'. k' \<notin> set (k # ks) \<longrightarrow> map_of (own v') k' = map_of (own v1) k'"
      using i(4) s(4) by simp
    have b: "r = None \<longrightarrow> (\<forall>k' \<in> set (k # ks). k' \<noteq> ''__proto__'' \<longrightarrow> map_of (own v') k' = map_of (own c) k')"
    proof (intro impI ballI)
      fix k' assume rn: "r = None" and k': "k' \<in> set (k # ks)" and np: "k' \<noteq> ''__proto__''"
      show "map_of (own v') k' = map_of (own c) k'"
      proof (cases "k' \<in> set ks")
        case True
        with i(5) rn np show ?thesis by simp
      next
        case False
        with k' have "k' = k" by simp
        with False i(4) s(5) np y show ?thesis by simp
      qed
    qed
    have c: "''__proto__'' \<notin> set (k # ks) \<longrightarrow> r = None \<and> proto v' = proto v1"
      using i(6) s(5) by auto
    have d: "\<forall>a. a \<noteq> ?va \<longrightarrow> deref h' a = deref h1 a" using i(2) s(2) by simp
    from i(1) s(1) d i(3) a b c show ?thesis by auto
  qed
qed

lemma updateViewContext_effect:
  assumes "deref h (view_context view) = Some vc" and "deref h ctx = Some c"
    and "updateViewContext val view ctx h = (r, h')"
  shows "length h' = length h
    \<and> (\<forall>a. a \<noteq> view_context view \<longrightarrow> deref h' a = deref h a)
    \<and> (\<exists>vc'. deref h' (view_context view) = Some vc'
          \<and> (\<forall>k. k \<notin> set (Object_keys c) \<longrightarrow> map_of (own vc') k = map_of (own vc) k)
          \<and> (r = None \<longrightarrow> (\<forall>k \<in> set (Object_keys c). k \<noteq> ''__proto__'' \<longrightarrow>
                               map_of (own vc') k = map_of (own c) k))
          \<and> (''__proto__'' \<notin> set (Object_keys c) \<longrightarrow> r = None \<and> proto vc' = proto vc))"
proof -
  from assms(2,3) have run: "forEach (map fst (own c)) (copy_key view ctx) h = (r, h')"
    by (simp add: updateViewContext_def Object_keys_def)
  have i: "\<forall>k \<in> set (map fst (own c)). map_of (own c) k = map_of (own c) k" by simp
  from forEach_copy_key[OF assms(1) assms(2) subset_refl i run]
  show ?thesis by (simp add: Object_keys_def)
qed


section \<open>The template name resolver\<close>

text \<open>
  C4. Template name resolution depends on nothing but its arguments and is constant: for
  every notification kind, every value and every set of registered templates (and whatever
  the base names of the cdk are) the resolver returns the main template name \<^verbatim>\<open>nextTpl\<close>.
\<close>

theorem notificationToTemplateName_nextTpl:
  "notificationToTemplateName base k val registered = Some ''nextTpl''"
  by (cases k) (simp_all add: RxScheduleOnTemplateNames_def AList.update_conv')


section \<open>The context factory and the context update\<close>

text \<open>
  C8. For every value \<open>val\<close>, \<^verbatim>\<open>createViewContext(val)\<close> returns a fresh object (its address was
  not in use, and every object of the heap is as it was) whose properties are
  \<^verbatim>\<open>scheduleOn = val\<close>, \<^verbatim>\<open>$implicit = val\<close> and \<^verbatim>\<open>$error\<close>, \<^verbatim>\<open>$complete\<close>, \<^verbatim>\<open>$suspense\<close> all
  false, and no other.
\<close>

theorem createViewContext_fresh_context:
  "deref h (fst (createViewContext val h)) = None
   \<and> take (length h) (snd (createViewContext val h)) = h
   \<and> (\<exists>c. deref (snd (createViewContext val h)) (fst (createViewContext val h)) = Some c
        \<and> get_prop c ''$implicit'' = val
        \<and> get_prop c ''scheduleOn'' = val
        \<and> get_prop c ''$error'' = JSBool False
        \<and> get_prop c ''$complete'' = JSBool False
        \<and> get_prop c ''$suspense'' = JSBool False
        \<and> Object_keys c = [''scheduleOn'', ''$implicit'', ''$error'', ''$complete'', ''$suspense''])"
  by (simp add: createViewContext_def alloc_def deref_def get_prop_def Object_keys_def plain_def)

text \<open>
  C7, as stated, fails for a supplied context with an own key \<^verbatim>\<open>__proto__\<close>. With the
  view's context \<^verbatim>\<open>{}\<close> (object 0) and the supplied context holding the own property
  \<^verbatim>\<open>__proto__ = 5\<close> (object 1), the call returns normally and leaves the heap as it was:
  the key is present in the supplied context, with value 5, while the view's context has
  no own property of that name and still inherits from \<^verbatim>\<open>Object.prototype\<close>, so that
  \<^verbatim>\<open>view.context[k]\<close> is that prototype and not 5 (the assignment went to the prototype
  setter, which ignores a number).
\<close>

theorem updateViewContext_proto_key_counterexample:
  "updateViewContext JSUndefined \<lparr>view_context = 0\<rparr> 1
      [plain [], plain [(''__proto__'', JSNumber 5)]]
     = (None, [plain [], plain [(''__proto__'', JSNumber 5)]])
   \<and> ''__proto__'' \<in> set (Object_keys ([plain [], plain [(''__proto__'', JSNumber 5)]] ! 1))
   \<and> get_prop ([plain [], plain [(''__proto__'', JSNumber 5)]] ! 1) ''__proto__'' = JSNumber 5
   \<and> map_of (own ([plain [], plain [(''__proto__'', JSNumber 5)]] ! 0)) ''__proto__'' = None
   \<and> proto ([plain [], plain [(''__proto__'', JSNumber 5)]] ! 0) = ObjectPrototype"
  by (simp add: updateViewContext_def Object_keys_def plain_def deref_def copy_key_def
        read_prop_def get_prop_def assign_prop_def set_prototype_def)

text \<open>
  C7, amended. \<^verbatim>\<open>updateViewContext\<close> patches the context of the view in place. For a view
  whose context is an ordinary object and a supplied context that is an ordinary object:
  however the call ends, the view refers to the same context object, no object was
  created, no other object was modified, and every key absent from the supplied context
  is in the view's context as before (present with the same value, or absent); when the
  call returns, every key of the supplied context other than \<^verbatim>\<open>__proto__\<close> is an own
  property of the view's context with the value it has in the supplied context; and when
  the supplied context has no own key \<^verbatim>\<open>__proto__\<close>, the call returns and the prototype of
  the view's context is as before. The supplied context may be the view's own. What an
  own key \<^verbatim>\<open>__proto__\<close> of the supplied context does to the view's context is left out.
\<close>

theorem updateViewContext_patches_in_place:
  assumes "deref h (view_context view) = Some vc" and "deref h ctx = Some c"
    and "updateViewContext val view ctx h = (r, h')"
  shows "length h' = length h
      \<and> (\<forall>a. a \<noteq> view_context view \<longrightarrow> deref h' a = deref h a)
      \<and> (\<exists>vc' c'. deref h' (view_context view) = Some vc'
            \<and> deref h' ctx = Some c'
            \<and> (\<forall>k. k \<notin> set (Object_keys c) \<longrightarrow> map_of (own vc') k = map_of (own vc) k)
            \<and> (r = None \<longrightarrow>
                 (\<forall>k \<in> set (Object_keys c). k \<noteq> ''__proto__'' \<longrightarrow>
                    map_of (own vc') k = Some (get_prop c k)
                    \<and> get_prop vc' k = get_prop c k \<and> get_prop vc' k = get_prop c' k))
            \<and> (''__proto__'' \<notin> set (Object_keys c) \<longrightarrow> r = None \<and> proto vc' = proto vc))"
proof -
  from updateViewContext_effect[OF assms] obtain vc' where
    e: "length h' = length h"
       "\<forall>a. a \<noteq> view_context view \<longrightarrow> deref h' a = deref h a"
       "deref h' (view_context view) = Some vc'"
       "\<forall>k. k \<notin> set (Object_keys c) \<longrightarrow> map_of (own vc') k = map_of (own vc) k"
       "r = None \<longrightarrow> (\<forall>k \<in> set (Object_keys c). k \<noteq> ''__proto__'' \<longrightarrow>
                               map_of (own vc') k = map_of (own c) k)"
       "''__proto__'' \<notin> set (Object_keys c) \<longrightarrow> r = None \<and> proto vc' = proto vc"
    by blast
  obtain c' where c': "deref h' ctx = Some c'"
    and same: "ctx \<noteq> view_context view \<Longrightarrow> c' = c" "ctx = view_context view \<Longrightarrow> c' = vc'"
    using e(2,3) assms(2) by (cases "ctx = view_context view") auto
  have present: "\<forall>k \<in> set (Object_keys c). map_of (own c) k = Some (get_prop c k)"
  proof
    fix k assume "k \<in> set (Object_keys c)"
    then obtain y where "map_of (own c) k = Some y"
      unfolding Object_keys_def
      by (metis domIff dom_map_of_conv_image_fst list.set_map not_Some_eq)
    then show "map_of (own c) k = Some (get_prop c k)" by (simp add: get_prop_def)
  qed
  have "r = None \<longrightarrow>
         (\<forall>k \<in> set (Object_keys c). k \<noteq> ''__proto__'' \<longrightarrow>
            map_of (own vc') k = Some (get_prop c k)
            \<and> get_prop vc' k = get_prop c k \<and> get_prop vc' k = get_prop c' k)"
  proof (intro impI ballI)
    fix k assume rn: "r = None" and k: "k \<in> set (Object_keys c)" and np: "k \<noteq> ''__proto__''"
    from e(5) rn k np have m: "map_of (own vc') k = map_of (own c) k" by simp
    with present k have 1: "map_of (own vc') k = Some (get_prop c k)" by simp
    from m have 2: "get_prop vc' k = get_prop c k" by (simp add: get_prop_def)
    have 3: "get_prop vc' k = get_prop c' k"
      using same 2 by (cases "ctx = view_context view") simp_all
    from 1 2 3 show "map_of (own vc') k = Some (get_prop c k)
            \<and> get_prop vc' k = get_prop c k \<and> get_prop vc' k = get_prop c' k" by simp
  qed
  with e c' show ?thesis by blast
qed

theorem updateViewContext_patches_in_place_witness:
  "deref [plain [(''$implicit'', JSNumber 1), (''extra'', JSString ''x'')],
          plain [(''$implicit'', JSNumber 2), (''$error'', JSBool False)]] 0
     = Some (plain [(''$implicit'', JSNumber 1), (''extra'', JSString ''x'')])
   \<and> deref [plain [(''$implicit'', JSNumber 1), (''extra'', JSString ''x'')],
            plain [(''$implicit'', JSNumber 2), (''$error'', JSBool False)]] 1
     = Some (plain [(''$implicit'', JSNumber 2), (''$error'', JSBool False)])
   \<and> updateViewContext (JSNumber 2) \<lparr>view_context = 0\<rparr> 1
          [plain [(''$implicit'', JSNumber 1), (''extra'', JSString ''x'')],
           plain [(''$implicit'', JSNumber 2), (''$error'', JSBool False)]]
      = (None,
         [plain [(''$implicit'', JSNumber 2), (''extra'', JSString ''x''), (''$error'', JSBool False)],
          plain [(''$implicit'', JSNumber 2), (''$error'', JSBool False)]])
   \<and> (\<exists>vc'. deref (snd (updateViewContext (JSNumber 2) \<lparr>view_context = 0\<rparr> 1
          [plain [(''$implicit'', JSNumber 1), (''extra'', JSString ''x'')],
           plain [(''$implicit'', JSNumber 2), (''$error'', JSBool False)]])) 0 = Some vc'
        \<and> get_prop vc' ''$implicit'' = JSNumber 2
        \<and> map_of (own vc') ''extra'' = Some (JSString ''x''))"
proof -
  let ?vc = "plain [(''$implicit'', JSNumber 1), (''extra'', JSString ''x'')]"
  let ?c = "plain [(''$implicit'', JSNumber 2), (''$error'', JSBool False)]"
  let ?U = "updateViewContext (JSNumber 2) \<lparr>view_context = 0\<rparr> 1 [?vc, ?c]"
  have a: "deref [?vc, ?c] (view_context \<lparr>view_context = 0\<rparr>) = Some ?vc"
    by (simp add: deref_def)
  have b: "deref [?vc, ?c] 1 = Some ?c"
    by (simp add: deref_def)
  have ev: "?U = (None,
         [plain [(''$implicit'', JSNumber 2), (''extra'', JSString ''x''), (''$error'', JSBool False)],
          ?c])"
    by (simp add: updateViewContext_def Object_keys_def plain_def deref_def copy_key_def
          read_prop_def get_prop_def assign_prop_def set_prop_def)
  have u: "?U = (fst ?U, snd ?U)" by simp
  from updateViewContext_patches_in_place[OF a b u] obtain vc' c' where
    r: "deref (snd ?U) (view_context \<lparr>view_context = 0\<rparr>) = Some vc'"
       "\<forall>k. k \<notin> set (Object_keys ?c) \<longrightarrow> map_of (own vc') k = map_of (own ?vc) k"
       "fst ?U = None \<longrightarrow>
          (\<forall>k \<in> set (Object_keys ?c). k \<noteq> ''__proto__'' \<longrightarrow>
             map_of (own vc') k = Some (get_prop ?c k)
             \<and> get_prop vc' k = get_prop ?c k \<and> get_prop vc' k = get_prop c' k)"
    by (elim conjE exE)
  from ev have n: "fst ?U = None" by simp
  from r(3) n have "get_prop vc' ''$implicit'' = JSNumber 2"
    by (simp add: Object_keys_def get_prop_def plain_def)
  moreover from r(2) have "map_of (own vc') ''extra'' = Some (JSString ''x'')"
    by (simp add: Object_keys_def plain_def)
  ultimately show ?thesis using a b ev r(1) by auto
qed


section \<open>The strategy \<^verbatim>\<open>instant\<close>\<close>

text \<open>
  C10. For every callback \<open>work\<close> and every stream \<open>o_s\<close>, \<^verbatim>\<open>behavior(work)(o_s)\<close> invokes
  \<open>work\<close> exactly once, within the call, and has no other effect; when \<open>work\<close> returns, the
  result is \<open>o_s\<close> itself, and when \<open>work\<close> throws, so does the call.
\<close>

theorem instant_behavior_calls_work_once:
  "invocations (snd (instant_behavior work o_s W)) = Suc (invocations W)
   \<and> inner (snd (instant_behavior work o_s W)) = snd (work (inner W))
   \<and> (fst (work (inner W)) = Returned () \<longrightarrow> fst (instant_behavior work o_s W) = Returned o_s)
   \<and> (\<forall>e. fst (work (inner W)) = Threw e \<longrightarrow> fst (instant_behavior work o_s W) = Threw e)"
  by (auto simp: instant_behavior_def invoke_def split: prod.splits completion.splits)

theorem instant_behavior_calls_work_once_witness:
  "fst ((\<lambda>w. (Returned (), Suc w)) (inner \<lparr>invocations = 0, inner = (5::nat)\<rparr>)) = Returned ()
   \<and> instant_behavior (\<lambda>w. (Returned (), Suc w)) ''stream'' \<lparr>invocations = 0, inner = (5::nat)\<rparr>
       = (Returned ''stream'', \<lparr>invocations = 1, inner = 6\<rparr>)"
proof -
  let ?work = "\<lambda>w::nat. (Returned (), Suc w)"
  let ?W = "\<lparr>invocations = 0, inner = (5::nat)\<rparr>"
  have h: "fst (?work (inner ?W)) = Returned ()" by simp
  from instant_behavior_calls_work_once[of ?work "''stream''" ?W] h
  have "invocations (snd (instant_behavior ?work ''stream'' ?W)) = 1"
    and "inner (snd (instant_behavior ?work ''stream'' ?W)) = 6"
    and "fst (instant_behavior ?work ''stream'' ?W) = Returned ''stream''"
    by simp_all
  then have "instant_behavior ?work ''stream'' ?W = (Returned ''stream'', \<lparr>invocations = 1, inner = 6\<rparr>)"
    by (cases "instant_behavior ?work ''stream'' ?W") auto
  with h show ?thesis by blast
qed


section \<open>Teardown\<close>

lemma exec_teardown_subscription: "subscription (exec_teardown t d) = subscription d"
  by (cases t) simp

lemma exec_teardowns_subscription: "subscription (exec_teardowns ts d) = subscription d"
  by (induction ts arbitrary: d) (simp_all add: exec_teardown_subscription)

lemma ngOnDestroy_closed: "closed (subscription (ngOnDestroy d))"
  by (simp add: ngOnDestroy_def Subscription_unsubscribe_def exec_teardowns_subscription)

text \<open>
  C9. Tearing the directive down is idempotent: in every state of the directive (before or
  after \<^verbatim>\<open>ngOnInit\<close>, with or without a manager) a second \<^verbatim>\<open>ngOnDestroy\<close> leaves the state
  of the first unchanged. \<^verbatim>\<open>ngOnDestroy\<close> has no failing branch: \<^verbatim>\<open>this.subscription\<close> is set
  by a field initialiser, and unsubscribing a closed subscription returns at once.
\<close>

theorem ngOnDestroy_idempotent: "ngOnDestroy (ngOnDestroy d) = ngOnDestroy d"
proof -
  have "closed (subscription (ngOnDestroy d))" by (rule ngOnDestroy_closed)
  then show ?thesis by (simp add: ngOnDestroy_def Subscription_unsubscribe_def)
qed


section \<open>The strategy stream replays the latest name\<close>

lemma ReplaySubject_next_one:
  "bufferSize s = 1 \<Longrightarrow>
     buffer (ReplaySubject_next x s) = [x] \<and> bufferSize (ReplaySubject_next x s) = 1"
  by (simp add: ReplaySubject_next_def Let_def)

lemma strategy_step_buffer:
  assumes "bufferSize (observablesSubject (strategyHandler d)) = 1"
  shows "bufferSize (observablesSubject (strategyHandler (strategy_step e d))) = 1
     \<and> merged (strategyHandler (strategy_step e d)) =
         (case e of Assign (StrategyObservable i) \<Rightarrow> i # merged (strategyHandler d)
          | _ \<Rightarrow> merged (strategyHandler d))
     \<and> values_subscribe (strategyHandler (strategy_step e d)) =
        (case supplied (merged (strategyHandler d)) [e] of
           [] \<Rightarrow> values_subscribe (strategyHandler d)
         | x # xs \<Rightarrow> [x])"
proof (cases e)
  case (Assign x)
  with assms show ?thesis
    by (cases x)
       (simp_all add: set_strategy_def values_subscribe_def ReplaySubject_subscribe_def
          ReplaySubject_next_one)
next
  case (Emits i s)
  with assms show ?thesis
    by (simp add: source_emits_def values_subscribe_def ReplaySubject_subscribe_def
          ReplaySubject_next_one)
qed

lemma supplied_step:
  "supplied srcs (e # es) =
     supplied srcs [e] @
     supplied (case e of Assign (StrategyObservable i) \<Rightarrow> i # srcs | _ \<Rightarrow> srcs) es"
proof (cases e)
  case (Assign x)
  then show ?thesis by (cases x) simp_all
next
  case (Emits i s)
  then show ?thesis by simp
qed

lemma strategy_run_values:
  assumes "bufferSize (observablesSubject (strategyHandler d)) = 1"
  shows "values_subscribe (strategyHandler (strategy_run es d)) =
     (if supplied (merged (strategyHandler d)) es = [] then values_subscribe (strategyHandler d)
      else [last (supplied (merged (strategyHandler d)) es)])"
  using assms
proof (induction es arbitrary: d)
  case Nil
  then show ?case by simp
next
  case (Cons e es)
  let ?d1 = "strategy_step e d"
  from strategy_step_buffer[OF Cons.prems, of e] have
    b: "bufferSize (observablesSubject (strategyHandler ?d1)) = 1"
    and m: "merged (strategyHandler ?d1) =
              (case e of Assign (StrategyObservable i) \<Rightarrow> i # merged (strategyHandler d)
               | _ \<Rightarrow> merged (strategyHandler d))"
    and v: "values_subscribe (strategyHandler ?d1) =
        (case supplied (merged (strategyHandler d)) [e] of
           [] \<Rightarrow> values_subscribe (strategyHandler d)
         | x # xs \<Rightarrow> [x])"
    by simp_all
  have one: "length (supplied (merged (strategyHandler d)) [e]) \<le> 1"
  proof (cases e)
    case (Assign x)
    then show ?thesis by (cases x) simp_all
  next
    case (Emits i s)
    then show ?thesis by simp
  qed
  show ?case
    using Cons.IH[OF b] m v one
    by (subst supplied_step, simp only: strategy_run.simps)
       (cases "supplied (merged (strategyHandler d)) [e]";
        auto split: strategy_event.splits strategy_input.splits)
qed

lemma strategy_run_bufferSize:
  assumes "bufferSize (observablesSubject (strategyHandler d)) = 1"
  shows "bufferSize (observablesSubject (strategyHandler (strategy_run es d))) = 1"
  using assms
proof (induction es arbitrary: d)
  case Nil
  then show ?case by simp
next
  case (Cons e es)
  from strategy_step_buffer[OF Cons.prems, of e]
  have "bufferSize (observablesSubject (strategyHandler (strategy_step e d))) = 1" by simp
  from Cons.IH[OF this] show ?case by simp
qed

text \<open>
  C5. The strategy stream replays the latest name. After any sequence of assignments to
  the \<^verbatim>\<open>strategy\<close> input and of emissions of the dynamic sources assigned to it, by which at
  least one name was supplied, a new subscriber of the stream receives at once exactly the
  name supplied last; and after one more assignment of a static name it receives that name.
\<close>

theorem strategy_stream_replays_latest:
  assumes "supplied [] es \<noteq> []"
  shows "values_subscribe (strategyHandler (strategy_run es (new_ScheduleOnDirective provider tpl)))
           = [last (supplied [] es)]
     \<and> values_subscribe (strategyHandler (set_strategy (StrategyName s)
           (strategy_run es (new_ScheduleOnDirective provider tpl)))) = [Some s]"
proof -
  let ?d0 = "new_ScheduleOnDirective provider tpl"
  have b: "bufferSize (observablesSubject (strategyHandler ?d0)) = 1"
    and m: "merged (strategyHandler ?d0) = []"
    by (simp_all add: new_ScheduleOnDirective_def coerceAllFactory_def new_ReplaySubject_def)
  have 1: "values_subscribe (strategyHandler (strategy_run es ?d0)) = [last (supplied [] es)]"
    using strategy_run_values[OF b, of es] m assms by simp
  have 2: "values_subscribe (strategyHandler (set_strategy (StrategyName s) (strategy_run es ?d0)))
             = [Some s]"
    using strategy_step_buffer[OF strategy_run_bufferSize[OF b, of es], of "Assign (StrategyName s)"]
    by simp
  from 1 2 show ?thesis by simp
qed

theorem strategy_stream_replays_latest_witness:
  "supplied [] [Assign (StrategyName ''local''), Assign (StrategyObservable 7), Emits 7 ''normal'',
                Emits 3 ''ignored''] \<noteq> []
   \<and> values_subscribe (strategyHandler (strategy_run
        [Assign (StrategyName ''local''), Assign (StrategyObservable 7), Emits 7 ''normal'',
         Emits 3 ''ignored'']
        (new_ScheduleOnDirective
           \<lparr>primaryStrategy = ''normal'', provider_strategies = [], config_patchZone = True\<rparr> 0)))
      = [Some ''normal'']"
proof -
  let ?es = "[Assign (StrategyName ''local''), Assign (StrategyObservable 7), Emits 7 ''normal'',
              Emits 3 ''ignored'']"
  have h: "supplied [] ?es \<noteq> []" by simp
  have l: "last (supplied [] ?es) = Some ''normal''" by simp
  from strategy_stream_replays_latest[OF h] l h show ?thesis by simp
qed


section \<open>The manager, step by step\<close>

lemma scheduleCommit_effect:
  assumes "scheduleCommit lib name p tm = (evs, tm')"
  shows "commits tm' = commits tm @ evs"
    and "requested tm' = requested tm @ [p]"
    and "discarded tm' = discarded tm @ slot (pending tm)"
    and "evs @ slot (pending tm') = [p]"
    and "activeView tm' = activeView tm"
    and "host_calls tm' = host_calls tm"
    and "templates tm' = templates tm"
    and "render_args tm' = render_args tm"
proof -
  obtain t errs where r: "resolve_timing lib tm name = (t, errs)" by (cases "resolve_timing lib tm name")
  show "commits tm' = commits tm @ evs"
    and "requested tm' = requested tm @ [p]"
    and "discarded tm' = discarded tm @ slot (pending tm)"
    and "evs @ slot (pending tm') = [p]"
    and "activeView tm' = activeView tm"
    and "host_calls tm' = host_calls tm"
    and "templates tm' = templates tm"
    and "render_args tm' = render_args tm"
    using assms r by (cases t; auto simp: scheduleCommit_def Let_def)+
qed

lemma resolver_main: "notificationToTemplateName base k val ts = Some ''nextTpl''"
  by (cases k) (simp_all add: RxScheduleOnTemplateNames_def AList.update_conv')

lemma tm_notify_cases:
  assumes "tm_notify lib H n (tm, h) = (evs, tm', h')"
  obtains (failed) e where "evs = []" and "h' = h" and "tm' = tm\<lparr>handled := handled tm @ [e]\<rparr>"
  | (thrown) e tpl tm1 where "map_of (templates tm) ''nextTpl'' = Some tpl"
      and "createOrUpdate lib ''nextTpl'' tpl n tm h = (Some e, tm1, h')"
      and "evs = []" and "tm' = tm1\<lparr>handled := handled tm1 @ [ContextError e]\<rparr>"
  | (rendered) tpl tm1 where "map_of (templates tm) ''nextTpl'' = Some tpl"
      and "createOrUpdate lib ''nextTpl'' tpl n tm h = (None, tm1, h')"
      and "scheduleCommit lib (current_strategy H tm1) n tm1 = (evs, tm')"
proof (cases "map_of (templates tm) ''nextTpl''")
  case None
  with assms have "evs = []" "h' = h"
    "tm' = tm\<lparr>handled := handled tm @ [TemplateNotFound (Some ''nextTpl'')]\<rparr>"
    by (simp_all add: tm_notify_def resolver_main)
  then show ?thesis by (rule failed)
next
  case (Some tpl)
  obtain r tm1 h1 where c: "createOrUpdate lib ''nextTpl'' tpl n tm h = (r, tm1, h1)"
    by (cases "createOrUpdate lib ''nextTpl'' tpl n tm h")
  show ?thesis
  proof (cases r)
    case (Some e)
    with assms \<open>map_of (templates tm) ''nextTpl'' = Some tpl\<close> c
    have "evs = []" "h' = h1" "tm' = tm1\<lparr>handled := handled tm1 @ [ContextError e]\<rparr>"
      by (simp_all add: tm_notify_def resolver_main)
    with \<open>map_of (templates tm) ''nextTpl'' = Some tpl\<close> c Some show ?thesis
      by (intro thrown) simp_all
  next
    case None
    obtain evs2 tm2 where sc: "scheduleCommit lib (current_strategy H tm1) n tm1 = (evs2, tm2)"
      by (cases "scheduleCommit lib (current_strategy H tm1) n tm1")
    from assms \<open>map_of (templates tm) ''nextTpl'' = Some tpl\<close> c None sc
    have "evs = evs2" "tm' = tm2" "h' = h1"
      by (simp_all add: tm_notify_def resolver_main)
    with \<open>map_of (templates tm) ''nextTpl'' = Some tpl\<close> c None sc show ?thesis
      by (intro rendered) simp_all
  qed
qed

lemma createView_effect:
  assumes "createView name tpl n tm h = (tm', h')"
  shows "tm' = tm\<lparr>activeView := Some \<lparr>templateName = name, contextRef = length h,
                                        insertionHandle = \<lparr>view_context = length h\<rparr>\<rparr>,
                  host_calls := host_calls tm @ [CreateEmbeddedView tpl (length h)]\<rparr>"
    and "length h' = Suc (length h)"
    and "\<forall>a. a < length h \<longrightarrow> deref h' a = deref h a"
  using assms by (auto simp: createView_def createViewContext_def alloc_def deref_def nth_append)

lemma createOrUpdate_create:
  assumes "activeView tm = None"
  shows "\<exists>h'. createOrUpdate lib name tpl n tm h =
           (None, tm\<lparr>activeView := Some \<lparr>templateName = name, contextRef = length h,
                                        insertionHandle = \<lparr>view_context = length h\<rparr>\<rparr>,
                  host_calls := host_calls tm @ [CreateEmbeddedView tpl (length h)]\<rparr>, h')
         \<and> length h' = Suc (length h)
         \<and> (\<forall>a. a < length h \<longrightarrow> deref h' a = deref h a)"
proof -
  obtain tm' h' where c: "createView name tpl n tm h = (tm', h')" by (cases "createView name tpl n tm h")
  from createView_effect[OF c] c assms show ?thesis by (simp add: createOrUpdate_def)
qed

lemma deref_alloc:
  "deref (h @ [ob]) (length h) = Some ob"
  "a < length h \<Longrightarrow> deref (h @ [ob]) a = deref h a"
  by (simp_all add: deref_def nth_append)

lemma createOrUpdate_update:
  assumes "activeView tm = Some \<lparr>templateName = name, contextRef = c, insertionHandle = \<lparr>view_context = c\<rparr>\<rparr>"
    and "c < length h"
  shows "\<exists>r h' vc'. createOrUpdate lib name tpl n tm h = (r, tm, h')
         \<and> length h' = Suc (length h)
         \<and> (\<forall>a. a \<noteq> c \<longrightarrow> a < length h \<longrightarrow> deref h' a = deref h a)
         \<and> deref h' c = Some vc'
         \<and> (''__proto__'' \<notin> set (map fst (patch_of lib n)) \<longrightarrow>
              r = None \<and>
              (\<forall>k. map_of (own vc') k =
                 (if k \<in> set (map fst (patch_of lib n)) then map_of (patch_of lib n) k
                  else map_of (own (h ! c)) k)))"
proof -
  let ?h1 = "h @ [plain (patch_of lib n)]"
  let ?view = "\<lparr>view_context = c\<rparr>"
  have a: "deref ?h1 (view_context ?view) = Some (h ! c)"
    using assms(2) by (simp add: deref_def nth_append)
  have b: "deref ?h1 (length h) = Some (plain (patch_of lib n))" by (rule deref_alloc(1))
  obtain r h' where u: "updateViewContext (n_value n) ?view (length h) ?h1 = (r, h')"
    by (cases "updateViewContext (n_value n) ?view (length h) ?h1")
  from updateViewContext_effect[OF a b u] obtain vc' where
    e: "length h' = length ?h1"
       "\<forall>a. a \<noteq> view_context ?view \<longrightarrow> deref h' a = deref ?h1 a"
       "deref h' (view_context ?view) = Some vc'"
       "\<forall>k. k \<notin> set (Object_keys (plain (patch_of lib n))) \<longrightarrow>
            map_of (own vc') k = map_of (own (h ! c)) k"
       "r = None \<longrightarrow> (\<forall>k \<in> set (Object_keys (plain (patch_of lib n))). k \<noteq> ''__proto__'' \<longrightarrow>
                               map_of (own vc') k = map_of (own (plain (patch_of lib n))) k)"
       "''__proto__'' \<notin> set (Object_keys (plain (patch_of lib n))) \<longrightarrow>
            r = None \<and> proto vc' = proto (h ! c)"
    by blast
  have k: "Object_keys (plain (patch_of lib n)) = map fst (patch_of lib n)"
    "own (plain (patch_of lib n)) = patch_of lib n"
    by (simp_all add: Object_keys_def plain_def)
  have c: "createOrUpdate lib name tpl n tm h = (r, tm, h')"
    using assms(1) u by (simp add: createOrUpdate_def alloc_def)
  have o: "\<forall>a. a \<noteq> c \<longrightarrow> a < length h \<longrightarrow> deref h' a = deref h a"
    using e(2) by (simp add: deref_alloc(2))
  have p: "''__proto__'' \<notin> set (map fst (patch_of lib n)) \<longrightarrow>
              r = None \<and>
              (\<forall>k. map_of (own vc') k =
                 (if k \<in> set (map fst (patch_of lib n)) then map_of (patch_of lib n) k
                  else map_of (own (h ! c)) k))"
  proof
    assume np: "''__proto__'' \<notin> set (map fst (patch_of lib n))"
    with e(6) k have rn: "r = None" by simp
    have "\<forall>k. map_of (own vc') k =
                 (if k \<in> set (map fst (patch_of lib n)) then map_of (patch_of lib n) k
                  else map_of (own (h ! c)) k)"
    proof
      fix x
      show "map_of (own vc') x =
                 (if x \<in> set (map fst (patch_of lib n)) then map_of (patch_of lib n) x
                  else map_of (own (h ! c)) x)"
      proof (cases "x \<in> set (map fst (patch_of lib n))")
        case True
        with np have xn: "x \<noteq> ''__proto__''" by metis
        from e(5) rn have "\<forall>k \<in> set (Object_keys (plain (patch_of lib n))). k \<noteq> ''__proto__'' \<longrightarrow>
                               map_of (own vc') k = map_of (own (plain (patch_of lib n))) k"
          by blast
        from this[unfolded k] True xn have "map_of (own vc') x = map_of (patch_of lib n) x"
          by blast
        with True show ?thesis by (simp only: if_True)
      next
        case False
        from e(4)[unfolded k] False have "map_of (own vc') x = map_of (own (h ! c)) x"
          by blast
        with False show ?thesis by (simp only: if_False)
      qed
    qed
    with rn show "r = None \<and>
              (\<forall>k. map_of (own vc') k =
                 (if k \<in> set (map fst (patch_of lib n)) then map_of (patch_of lib n) k
                  else map_of (own (h ! c)) k))" by simp
  qed
  from c e(1,3) o p show ?thesis by auto
qed

lemma createOrUpdate_frame:
  assumes "createOrUpdate lib name tpl n tm h = (r, tm', h')"
  shows "commits tm' = commits tm" and "requested tm' = requested tm"
    and "discarded tm' = discarded tm" and "pending tm' = pending tm"
    and "templates tm' = templates tm" and "render_args tm' = render_args tm"
    and "handled tm' = handled tm"
proof -
  have "\<exists>av cs. tm' = tm\<lparr>activeView := av, host_calls := cs\<rparr>"
  proof (cases "activeView tm")
    case None
    with assms createOrUpdate_create[OF None, of lib name tpl n h] show ?thesis by auto
  next
    case (Some av)
    show ?thesis
    proof (cases "templateName av = name")
      case True
      with assms Some have "tm' = tm"
        by (auto simp: createOrUpdate_def split: prod.splits)
      then have "tm' = tm\<lparr>activeView := activeView tm, host_calls := host_calls tm\<rparr>" by simp
      then show ?thesis by blast
    next
      case False
      obtain tm2 h2 where c: "createView name tpl n (dispose tm) h = (tm2, h2)"
        by (cases "createView name tpl n (dispose tm) h")
      from assms Some False c have "tm' = tm2" by (simp add: createOrUpdate_def)
      with createView_effect(1)[OF c] Some show ?thesis by (auto simp: dispose_def)
    qed
  qed
  then obtain av cs where e: "tm' = tm\<lparr>activeView := av, host_calls := cs\<rparr>" by blast
  show "commits tm' = commits tm" and "requested tm' = requested tm"
    and "discarded tm' = discarded tm" and "pending tm' = pending tm"
    and "templates tm' = templates tm" and "render_args tm' = render_args tm"
    and "handled tm' = handled tm"
    by (simp_all add: e)
qed


section \<open>Every commit request is accounted for\<close>

lemma accounted_refl: "accounted tm tm []"
  by (simp add: accounted_def)

lemma accounted_trans:
  assumes "accounted tm tm1 e1" and "accounted tm1 tm2 e2"
  shows "accounted tm tm2 (e1 @ e2)"
proof -
  from assms(1) obtain R1 D1 where 1: "commits tm1 = commits tm @ e1"
    "requested tm1 = requested tm @ R1" "discarded tm1 = discarded tm @ D1"
    "mset R1 + mset (slot (pending tm)) = mset e1 + mset D1 + mset (slot (pending tm1))"
    unfolding accounted_def by blast
  from assms(2) obtain R2 D2 where 2: "commits tm2 = commits tm1 @ e2"
    "requested tm2 = requested tm1 @ R2" "discarded tm2 = discarded tm1 @ D2"
    "mset R2 + mset (slot (pending tm1)) = mset e2 + mset D2 + mset (slot (pending tm2))"
    unfolding accounted_def by blast
  have "mset (R1 @ R2) + mset (slot (pending tm)) =
        (mset R1 + mset (slot (pending tm))) + mset R2" by simp
  also have "\<dots> = mset e1 + mset D1 + (mset R2 + mset (slot (pending tm1)))"
    using 1(4) by simp
  also have "\<dots> = mset (e1 @ e2) + mset (D1 @ D2) + mset (slot (pending tm2))"
    using 2(4) by simp
  finally have m: "mset (R1 @ R2) + mset (slot (pending tm)) =
      mset (e1 @ e2) + mset (D1 @ D2) + mset (slot (pending tm2))" .
  have "requested tm2 = requested tm @ (R1 @ R2)" "discarded tm2 = discarded tm @ (D1 @ D2)"
    "commits tm2 = commits tm @ (e1 @ e2)"
    using 1 2 by simp_all
  with m show ?thesis unfolding accounted_def by blast
qed

lemma accounted_scheduleCommit:
  assumes "scheduleCommit lib name p tm = (evs, tm')"
  shows "accounted tm tm' evs"
proof -
  note e = scheduleCommit_effect[OF assms]
  have "mset [p] + mset (slot (pending tm)) = mset evs + mset (slot (pending tm)) + mset (slot (pending tm'))"
  proof -
    have "mset [p] = mset evs + mset (slot (pending tm'))" using e(4) by (metis mset_append)
    then show ?thesis by simp
  qed
  with e(1,2,3) show ?thesis unfolding accounted_def by blast
qed

lemma accounted_tm_notify:
  assumes "tm_notify lib H n (tm, h) = (evs, tm', h')"
  shows "accounted tm tm' evs"
  using assms
proof (cases rule: tm_notify_cases)
  case (failed e)
  then show ?thesis by (simp add: accounted_def)
next
  case (thrown e tpl tm1)
  from createOrUpdate_frame[OF thrown(2)] thrown(3,4) show ?thesis
    by (simp add: accounted_def)
next
  case (rendered tpl tm1)
  from createOrUpdate_frame[OF rendered(2)] have "accounted tm tm1 []"
    by (simp add: accounted_def)
  from accounted_trans[OF this accounted_scheduleCommit[OF rendered(3)]] show ?thesis by simp
qed

lemma accounted_runPending:
  assumes "runPending tm = (evs, tm')"
  shows "accounted tm tm' evs"
proof (cases "pending tm")
  case None
  with assms have "evs = []" "tm' = tm" by (simp_all add: runPending_def)
  then show ?thesis by (simp add: accounted_def)
next
  case (Some p)
  with assms have "evs = [p]" "tm' = tm\<lparr>pending := None, commits := commits tm @ [p]\<rparr>"
    by (auto simp: runPending_def)
  with Some show ?thesis by (simp add: accounted_def)
qed

lemma accounted_tm_cancel: "accounted tm (tm_cancel tm) []"
  by (simp add: accounted_def tm_cancel_def)


section \<open>One view for the shared template\<close>

lemma tm_notify_None:
  assumes "map_of (templates tm) ''nextTpl'' = Some tpl"
    and "createOrUpdate lib ''nextTpl'' tpl n tm h = (None, tm1, h1)"
    and "tm_notify lib H n (tm, h) = (evs, tm', h')"
  shows "scheduleCommit lib (current_strategy H tm1) n tm1 = (evs, tm')" and "h' = h1"
  using assms by (auto simp: tm_notify_def resolver_main split: prod.splits)

lemma tm_notify_Some:
  assumes "map_of (templates tm) ''nextTpl'' = Some tpl"
    and "createOrUpdate lib ''nextTpl'' tpl n tm h = (Some e, tm1, h1)"
    and "tm_notify lib H n (tm, h) = (evs, tm', h')"
  shows "tm' = tm1\<lparr>handled := handled tm1 @ [ContextError e]\<rparr>" and "h' = h1" and "evs = []"
  using assms by (auto simp: tm_notify_def resolver_main)

lemma tm_notify_first:
  assumes "activeView tm = None" and "host_calls tm = []"
    and "map_of (templates tm) ''nextTpl'' = Some tpl"
    and "tm_notify lib H n (tm, h) = (evs, tm', h')"
  shows "activeView tm' = Some \<lparr>templateName = ''nextTpl'', contextRef = length h,
                                 insertionHandle = \<lparr>view_context = length h\<rparr>\<rparr>"
    and "host_calls tm' = [CreateEmbeddedView tpl (length h)]"
    and "length h' = Suc (length h)"
    and "templates tm' = templates tm"
    and "\<forall>a. a < length h \<longrightarrow> deref h' a = deref h a"
proof -
  let ?tm1 = "tm\<lparr>activeView := Some \<lparr>templateName = ''nextTpl'', contextRef = length h,
                                        insertionHandle = \<lparr>view_context = length h\<rparr>\<rparr>,
                  host_calls := host_calls tm @ [CreateEmbeddedView tpl (length h)]\<rparr>"
  from createOrUpdate_create[OF assms(1), of lib "''nextTpl''" tpl n h] obtain h1 where
    c: "createOrUpdate lib ''nextTpl'' tpl n tm h = (None, ?tm1, h1)"
    and l: "length h1 = Suc (length h)"
    and o: "\<forall>a. a < length h \<longrightarrow> deref h1 a = deref h a" by blast
  note s = tm_notify_None[OF assms(3) c assms(4)]
  note e = scheduleCommit_effect[OF s(1)]
  show "\<forall>a. a < length h \<longrightarrow> deref h' a = deref h a" using o s(2) by simp
  show "activeView tm' = Some \<lparr>templateName = ''nextTpl'', contextRef = length h,
                                 insertionHandle = \<lparr>view_context = length h\<rparr>\<rparr>"
    using e(5) by simp
  show "host_calls tm' = [CreateEmbeddedView tpl (length h)]"
    using e(6) assms(2) by simp
  show "length h' = Suc (length h)" using s(2) l by simp
  show "templates tm' = templates tm" using e(7) by simp
qed

lemma tm_notify_later:
  assumes "activeView tm = Some \<lparr>templateName = ''nextTpl'', contextRef = c,
                                 insertionHandle = \<lparr>view_context = c\<rparr>\<rparr>"
    and "c < length h"
    and "map_of (templates tm) ''nextTpl'' = Some tpl"
    and "tm_notify lib H n (tm, h) = (evs, tm', h')"
  shows "activeView tm' = activeView tm \<and> host_calls tm' = host_calls tm
    \<and> length h' = Suc (length h)
    \<and> templates tm' = templates tm
    \<and> (\<exists>vc. deref h' c = Some vc \<and>
          (''__proto__'' \<notin> set (map fst (patch_of lib n)) \<longrightarrow>
             (\<forall>k. map_of (own vc) k =
                (if k \<in> set (map fst (patch_of lib n)) then map_of (patch_of lib n) k
                 else map_of (own (h ! c)) k))))
    \<and> (\<forall>a. a \<noteq> c \<longrightarrow> a < length h \<longrightarrow> deref h' a = deref h a)"
proof -
  from createOrUpdate_update[OF assms(1,2), of lib tpl n] obtain r h1 vc where
    c: "createOrUpdate lib ''nextTpl'' tpl n tm h = (r, tm, h1)"
    and l: "length h1 = Suc (length h)"
    and o: "\<forall>a. a \<noteq> c \<longrightarrow> a < length h \<longrightarrow> deref h1 a = deref h a"
    and v: "deref h1 c = Some vc"
       "''__proto__'' \<notin> set (map fst (patch_of lib n)) \<longrightarrow>
          r = None \<and>
          (\<forall>k. map_of (own vc) k =
             (if k \<in> set (map fst (patch_of lib n)) then map_of (patch_of lib n) k
              else map_of (own (h ! c)) k))"
    by blast
  have "activeView tm' = activeView tm \<and> host_calls tm' = host_calls tm
      \<and> templates tm' = templates tm \<and> h' = h1"
  proof (cases r)
    case None
    with c have c': "createOrUpdate lib ''nextTpl'' tpl n tm h = (None, tm, h1)" by simp
    note s = tm_notify_None[OF assms(3) c' assms(4)]
    note e = scheduleCommit_effect[OF s(1)]
    from e(5,6,7) s(2) show ?thesis by simp
  next
    case (Some e)
    with c have c': "createOrUpdate lib ''nextTpl'' tpl n tm h = (Some e, tm, h1)" by simp
    from tm_notify_Some[OF assms(3) c' assms(4)] show ?thesis by simp
  qed
  with l o v show ?thesis by auto
qed

lemma tm_feed_later:
  assumes "activeView tm = Some \<lparr>templateName = ''nextTpl'', contextRef = c,
                                 insertionHandle = \<lparr>view_context = c\<rparr>\<rparr>"
    and "c < length h"
    and "map_of (templates tm) ''nextTpl'' = Some tpl"
    and "tm_feed lib H ns (tm, h) = (evs, tm', h')"
  shows "activeView tm' = activeView tm \<and> host_calls tm' = host_calls tm
       \<and> length h' = length h + length ns
       \<and> (\<forall>a. a \<noteq> c \<longrightarrow> a < length h \<longrightarrow> deref h' a = deref h a)
       \<and> (\<exists>vc. deref h' c = Some vc \<and>
            (ns \<noteq> [] \<longrightarrow> ''__proto__'' \<notin> set (map fst (patch_of lib (last ns))) \<longrightarrow>
               (\<forall>k \<in> set (map fst (patch_of lib (last ns))).
                  map_of (own vc) k = map_of (patch_of lib (last ns)) k)))"
  using assms
proof (induction ns arbitrary: tm h evs tm' h')
  case Nil
  then show ?case by (simp add: deref_def)
next
  case (Cons n ns)
  obtain e1 tm1 h1 where n1: "tm_notify lib H n (tm, h) = (e1, tm1, h1)"
    by (cases "tm_notify lib H n (tm, h)")
  obtain e2 tm2 h2 where f: "tm_feed lib H ns (tm1, h1) = (e2, tm2, h2)"
    by (cases "tm_feed lib H ns (tm1, h1)")
  from Cons.prems(4) n1 f have eq: "tm' = tm2" "h' = h2" by simp_all
  from tm_notify_later[OF Cons.prems(1,2,3) n1] obtain vc1 where
    L: "activeView tm1 = activeView tm" "host_calls tm1 = host_calls tm"
       "length h1 = Suc (length h)" "templates tm1 = templates tm"
       "deref h1 c = Some vc1"
       "''__proto__'' \<notin> set (map fst (patch_of lib n)) \<longrightarrow>
             (\<forall>k. map_of (own vc1) k =
                (if k \<in> set (map fst (patch_of lib n)) then map_of (patch_of lib n) k
                 else map_of (own (h ! c)) k))"
       "\<forall>a. a \<noteq> c \<longrightarrow> a < length h \<longrightarrow> deref h1 a = deref h a"
    by blast
  have a1: "activeView tm1 = Some \<lparr>templateName = ''nextTpl'', contextRef = c,
                                 insertionHandle = \<lparr>view_context = c\<rparr>\<rparr>"
    using L(1) Cons.prems(1) by simp
  have c1: "c < length h1" using L(3) Cons.prems(2) by simp
  have t1: "map_of (templates tm1) ''nextTpl'' = Some tpl" using L(4) Cons.prems(3) by simp
  from Cons.IH[OF a1 c1 t1 f] have IH:
    "activeView tm2 = activeView tm1" "host_calls tm2 = host_calls tm1"
    "length h2 = length h1 + length ns"
    "\<forall>a. a \<noteq> c \<longrightarrow> a < length h1 \<longrightarrow> deref h2 a = deref h1 a"
    "\<exists>vc. deref h2 c = Some vc \<and>
            (ns \<noteq> [] \<longrightarrow> ''__proto__'' \<notin> set (map fst (patch_of lib (last ns))) \<longrightarrow>
               (\<forall>k \<in> set (map fst (patch_of lib (last ns))).
                  map_of (own vc) k = map_of (patch_of lib (last ns)) k))"
    by simp_all
  have "\<exists>vc. deref h2 c = Some vc \<and>
            (''__proto__'' \<notin> set (map fst (patch_of lib (last (n # ns)))) \<longrightarrow>
               (\<forall>k \<in> set (map fst (patch_of lib (last (n # ns)))).
                  map_of (own vc) k = map_of (patch_of lib (last (n # ns))) k))"
  proof (cases "ns = []")
    case True
    with f have "h2 = h1" by simp
    with L(5,6) True show ?thesis by auto
  next
    case False
    with IH(5) show ?thesis by simp
  qed
  moreover have "\<forall>a. a \<noteq> c \<longrightarrow> a < length h \<longrightarrow> deref h2 a = deref h a"
    using IH(4) L(7) L(3) by simp
  ultimately show ?case using IH(1,2,3) L(1,2,3) eq by simp
qed

lemma configured_manager_eq:
  "configured_manager lib d =
     (createTemplateManager (renderParent d) (patchZone d)
        (primaryStrategy (strategyProvider d)) (provider_strategies (strategyProvider d)))
     \<lparr>templates := [(''nextTpl'', nextTemplateRef d)], strategy_bound := True\<rparr>"
  by (simp add: configured_manager_def RxScheduleOnTemplateNames_def AList.update_conv'
        addTemplateRef_def createTemplateManager_def nextStrategy_def)

lemma configured_manager_fresh:
  "activeView (configured_manager lib d) = None"
  "host_calls (configured_manager lib d) = []"
  "map_of (templates (configured_manager lib d)) ''nextTpl'' = Some (nextTemplateRef d)"
  "render_args (configured_manager lib d) = []"
  "pending (configured_manager lib d) = None"
  by (simp_all add: configured_manager_eq createTemplateManager_def)

lemma live_views_single:
  "length (live_views (take i [CreateEmbeddedView tpl c])) \<le> 1"
  by (cases i) (simp_all add: live_views_def)


lemmas example_defs =
  ngOnInit_def tm_render_def rx_of_def tm_notify_def createOrUpdate_def createView_def
  createViewContext_def alloc_def scheduleCommit_def resolve_timing_def current_strategy_def
  values_subscribe_def ReplaySubject_subscribe_def Subscription_add_def on_rendered_def
  example_directive_def example_cdk_def example_provider_def ngOnChanges_def
  createTemplateManager_of_def configured_manager_def createTemplateManager_def addTemplateRef_def
  nextStrategy_def RxScheduleOnTemplateNames_def set_renderCallback_def new_ScheduleOnDirective_def
  coerceAllFactory_def new_ReplaySubject_def new_Subscription_def anchor_step_def runPending_def
  updateViewContext_def copy_key_def read_prop_def assign_prop_def deref_def get_prop_def
  set_prop_def Object_keys_def flags_patch_def next_of_def Let_def dispose_def
  rendered_streams_def is_suspense_def plain_def

text \<open>
  C3. Under the directive's configuration (every notification kind resolves to the one
  template registered by \<^verbatim>\<open>_createTemplateManager\<close>), for every non-empty stream of
  notifications rendered, of kind Next or any other, the host is asked for exactly one view, by
  the first notification, and never to destroy one; at every point of the sequence of
  host calls at most one view is alive; the active view and its context object are those
  of the first notification however many follow; a later notification patches that
  context in place (after the last one the context agrees with the patch on the patch's
  keys, for a patch without a key \<^verbatim>\<open>__proto__\<close>); and no object that existed before is
  touched.
\<close>

theorem shared_template_single_view:
  assumes "tm_render lib H (n # ns) (configured_manager lib d, h) = (evs, tm, h')"
  shows "host_calls tm = [CreateEmbeddedView (nextTemplateRef d) (length h)]
     \<and> length (filter is_create (host_calls tm)) = 1
     \<and> (\<forall>i. length (live_views (take i (host_calls tm))) \<le> 1)
     \<and> activeView tm = Some \<lparr>templateName = ''nextTpl'', contextRef = length h,
                              insertionHandle = \<lparr>view_context = length h\<rparr>\<rparr>
     \<and> (\<exists>vc. deref h' (length h) = Some vc \<and>
           (ns \<noteq> [] \<longrightarrow> ''__proto__'' \<notin> set (map fst (patch_of lib (last ns))) \<longrightarrow>
              (\<forall>k \<in> set (map fst (patch_of lib (last ns))).
                 map_of (own vc) k = map_of (patch_of lib (last ns)) k)))
     \<and> take (length h) h' = h"
proof -
  let ?tm0 = "(configured_manager lib d)\<lparr>render_args :=
                 render_args (configured_manager lib d) @ [n # ns]\<rparr>"
  have fresh: "activeView ?tm0 = None" "host_calls ?tm0 = []"
    "map_of (templates ?tm0) ''nextTpl'' = Some (nextTemplateRef d)"
    by (simp_all add: configured_manager_fresh)
  obtain e1 tm1 h1 where n1: "tm_notify lib H n (?tm0, h) = (e1, tm1, h1)"
    by (cases "tm_notify lib H n (?tm0, h)")
  obtain e2 tm2 h2 where f: "tm_feed lib H ns (tm1, h1) = (e2, tm2, h2)"
    by (cases "tm_feed lib H ns (tm1, h1)")
  from assms n1 f have eq: "tm = tm2" "h' = h2" by (simp_all add: tm_render_def)
  note F = tm_notify_first[OF fresh n1]
  have c1: "length h < length h1" using F(3) by simp
  have t1: "map_of (templates tm1) ''nextTpl'' = Some (nextTemplateRef d)"
    using F(4) fresh(3) by simp
  from tm_feed_later[OF F(1) c1 t1 f] have L:
    "activeView tm2 = activeView tm1" "host_calls tm2 = host_calls tm1"
    "\<forall>a. a \<noteq> length h \<longrightarrow> a < length h1 \<longrightarrow> deref h2 a = deref h1 a"
    "\<exists>vc. deref h2 (length h) = Some vc \<and>
            (ns \<noteq> [] \<longrightarrow> ''__proto__'' \<notin> set (map fst (patch_of lib (last ns))) \<longrightarrow>
               (\<forall>k \<in> set (map fst (patch_of lib (last ns))).
                  map_of (own vc) k = map_of (patch_of lib (last ns)) k))"
    "length h2 = length h1 + length ns"
    by simp_all
  have hc: "host_calls tm = [CreateEmbeddedView (nextTemplateRef d) (length h)]"
    using eq L(2) F(2) by simp
  have "\<forall>a. a < length h \<longrightarrow> deref h2 a = deref h a"
    using L(3) F(5) c1 by simp
  then have "\<forall>a. a < length h \<longrightarrow> h2 ! a = h ! a"
    using L(5) c1 by (simp add: deref_def)
  then have old: "take (length h) h' = h"
    using eq L(5) c1 by (intro nth_equalityI) simp_all
  from hc have "length (filter is_create (host_calls tm)) = 1" by simp
  moreover have "\<forall>i. length (live_views (take i (host_calls tm))) \<le> 1"
    unfolding hc using live_views_single by blast
  ultimately show ?thesis using hc eq L(1,4) F(1) old by simp
qed

theorem shared_template_single_view_witness:
  "fst (tm_render example_cdk (strategyHandler example_directive)
          [next_of (JSNumber 1), next_of (JSNumber 2)]
          (configured_manager example_cdk example_directive, [])) = []
   \<and> host_calls (fst (snd (tm_render example_cdk (strategyHandler example_directive)
          [next_of (JSNumber 1), next_of (JSNumber 2)]
          (configured_manager example_cdk example_directive, [])))) = [CreateEmbeddedView 0 0]
   \<and> snd (snd (tm_render example_cdk (strategyHandler example_directive)
          [next_of (JSNumber 1), next_of (JSNumber 2)]
          (configured_manager example_cdk example_directive, []))) =
       [plain [(''scheduleOn'', JSNumber 1), (''$implicit'', JSNumber 2), (''$error'', JSBool False),
               (''$complete'', JSBool False), (''$suspense'', JSBool False)],
        plain [(''$implicit'', JSNumber 2), (''$error'', JSBool False), (''$complete'', JSBool False),
               (''$suspense'', JSBool False)]]"
proof -
  let ?R = "tm_render example_cdk (strategyHandler example_directive)
          [next_of (JSNumber 1), next_of (JSNumber 2)]
          (configured_manager example_cdk example_directive, [])"
  have h: "?R = (fst ?R, fst (snd ?R), snd (snd ?R))" by simp
  from shared_template_single_view[OF h]
  have c: "host_calls (fst (snd ?R)) = [CreateEmbeddedView (nextTemplateRef example_directive) (length ([]::heap))]"
    by blast
  have t: "nextTemplateRef example_directive = 0"
    by (simp add: example_defs)
  have e: "fst ?R = []"
    by (simp add: example_defs)
  have m: "snd (snd ?R) =
       [plain [(''scheduleOn'', JSNumber 1), (''$implicit'', JSNumber 2), (''$error'', JSBool False),
               (''$complete'', JSBool False), (''$suspense'', JSBool False)],
        plain [(''$implicit'', JSNumber 2), (''$error'', JSBool False), (''$complete'', JSBool False),
               (''$suspense'', JSBool False)]]"
    by (simp add: example_defs)
  from c t e m show ?thesis by simp
qed


section \<open>The subscriber of \<^verbatim>\<open>ngOnInit\<close>\<close>

lemma reported_refl: "reported d d []"
  by (cases "renderObserver d") (simp_all add: reported_def)

lemma reported_trans:
  assumes "reported d d1 e1" and "reported d1 d2 e2"
  shows "reported d d2 (e1 @ e2)"
  using assms by (cases "renderObserver d") (simp_all add: reported_def)

lemma on_rendered_reported: "reported d (on_rendered n d) [n]"
  by (cases "renderObserver d") (simp_all add: reported_def on_rendered_def)

lemma on_rendered_frame:
  "templateManager (on_rendered n d) = templateManager d"
  "subscription (on_rendered n d) = subscription d"
  "delivering (on_rendered n d) = delivering d"
  "strategyHandler (on_rendered n d) = strategyHandler d"
  by (simp_all add: on_rendered_def)

lemma deliver_reported:
  "reported d (deliver evs d) evs
   \<and> templateManager (deliver evs d) = templateManager d
   \<and> subscription (deliver evs d) = subscription d
   \<and> delivering (deliver evs d) = delivering d
   \<and> strategyHandler (deliver evs d) = strategyHandler d"
proof (induction evs arbitrary: d)
  case Nil
  then show ?case by (simp add: reported_refl)
next
  case (Cons n evs)
  from reported_trans[OF on_rendered_reported[of d n] conjunct1[OF Cons.IH[of "on_rendered n d"]]]
  have "reported d (deliver (n # evs) d) (n # evs)" by simp
  with Cons.IH[of "on_rendered n d"] show ?case by (simp add: on_rendered_frame)
qed

lemma tm_notify_render_args:
  assumes "tm_notify lib H n (tm, h) = (evs, tm', h')"
  shows "render_args tm' = render_args tm"
  using assms
proof (cases rule: tm_notify_cases)
  case (failed e)
  then show ?thesis by simp
next
  case (thrown e tpl tm1)
  from createOrUpdate_frame(6)[OF thrown(2)] thrown(4) show ?thesis by simp
next
  case (rendered tpl tm1)
  from createOrUpdate_frame(6)[OF rendered(2)] scheduleCommit_effect(8)[OF rendered(3)]
  show ?thesis by simp
qed

lemma tm_feed_accounted:
  assumes "tm_feed lib H ns (tm, h) = (evs, tm', h')"
  shows "accounted tm tm' evs \<and> render_args tm' = render_args tm"
  using assms
proof (induction ns arbitrary: tm h evs tm' h')
  case Nil
  then show ?case by (simp add: accounted_refl)
next
  case (Cons n ns)
  obtain e1 tm1 h1 where n1: "tm_notify lib H n (tm, h) = (e1, tm1, h1)"
    by (cases "tm_notify lib H n (tm, h)")
  obtain e2 tm2 h2 where f: "tm_feed lib H ns (tm1, h1) = (e2, tm2, h2)"
    by (cases "tm_feed lib H ns (tm1, h1)")
  from Cons.prems n1 f have eq: "tm' = tm2" "evs = e1 @ e2" by simp_all
  from Cons.IH[OF f] accounted_tm_notify[OF n1] tm_notify_render_args[OF n1] eq
  show ?case by (auto intro: accounted_trans)
qed

lemma accounted_render_args:
  "accounted (tm\<lparr>render_args := x\<rparr>) tm' new = accounted tm tm' new"
  by (simp add: accounted_def)

lemma Subscription_add_effect:
  assumes "templateManager d = Some tm"
  shows "\<exists>tm'. templateManager (Subscription_add RenderSubscription d) = Some tm'
      \<and> accounted tm tm' [] \<and> render_args tm' = render_args tm
      \<and> reported d (Subscription_add RenderSubscription d) []"
proof (cases "closed (subscription d)")
  case True
  then have "Subscription_add RenderSubscription d =
      d\<lparr>delivering := False, templateManager := Some (tm_cancel tm)\<rparr>"
    using assms by (simp add: Subscription_add_def)
  moreover have "reported d (d\<lparr>delivering := False, templateManager := Some (tm_cancel tm)\<rparr>) []"
    by (cases "renderObserver d") (simp_all add: reported_def)
  moreover have "render_args (tm_cancel tm) = render_args tm" by (simp add: tm_cancel_def)
  ultimately show ?thesis by (simp add: accounted_tm_cancel)
next
  case False
  then have e: "Subscription_add RenderSubscription d =
      d\<lparr>subscription := (subscription d)\<lparr>finalizers := finalizers (subscription d) @ [RenderSubscription]\<rparr>\<rparr>"
    by (simp add: Subscription_add_def)
  have "reported d (d\<lparr>subscription := (subscription d)\<lparr>finalizers := finalizers (subscription d) @ [RenderSubscription]\<rparr>\<rparr>) []"
    by (cases "renderObserver d") (simp_all add: reported_def)
  with e assms show ?thesis by (simp add: accounted_refl)
qed

lemma ngOnInit_effect:
  assumes "templateManager d = Some tm"
  shows "\<exists>d1 h1 tm1 new. ngOnInit lib (d, h) = Inr (d1, h1) \<and> templateManager d1 = Some tm1
      \<and> render_args tm1 = render_args tm @
           [[\<lparr>n_value = JSBool True, hasValue = True, kind = Next, error = JSBool False, complete = False\<rparr>]]
      \<and> accounted tm tm1 new \<and> reported d d1 new"
proof -
  let ?n = "\<lparr>n_value = JSBool True, hasValue = True, kind = Next, error = JSBool False, complete = False\<rparr>"
  let ?tm0 = "tm\<lparr>render_args := render_args tm @ [[?n]]\<rparr>"
  obtain evs tm1 h1 where f: "tm_feed lib (strategyHandler d) [?n] (?tm0, h) = (evs, tm1, h1)"
    by (cases "tm_feed lib (strategyHandler d) [?n] (?tm0, h)")
  let ?d0 = "d\<lparr>templateManager := Some tm1, delivering := True\<rparr>"
  let ?d1 = "deliver evs ?d0"
  have init: "ngOnInit lib (d, h) = Inr (Subscription_add RenderSubscription ?d1, h1)"
    using assms f by (simp add: ngOnInit_def tm_render_def rx_of_def)
  from tm_feed_accounted[OF f] have a: "accounted tm tm1 evs"
    and r: "render_args tm1 = render_args tm @ [[?n]]"
    by (simp_all add: accounted_render_args)
  have rep0: "reported d ?d0 []"
    by (cases "renderObserver d") (simp_all add: reported_def)
  note D = deliver_reported[of ?d0 evs]
  from D have tm_d1: "templateManager ?d1 = Some tm1" by simp
  from reported_trans[OF rep0 conjunct1[OF D]] have rep1: "reported d ?d1 evs" by simp
  from Subscription_add_effect[OF tm_d1] obtain tm2 where
    s: "templateManager (Subscription_add RenderSubscription ?d1) = Some tm2"
       "accounted tm1 tm2 []" "render_args tm2 = render_args tm1"
       "reported ?d1 (Subscription_add RenderSubscription ?d1) []"
    by blast
  from accounted_trans[OF a s(2)] have a2: "accounted tm tm2 evs" by simp
  from reported_trans[OF rep1 s(4)] have r2: "reported d (Subscription_add RenderSubscription ?d1) evs" by simp
  from init s(1) s(3) r a2 r2 show ?thesis by auto
qed

lemma anchor_step_effect:
  assumes "templateManager d = Some tm"
  shows "\<exists>d' h' tm' new. anchor_step lib ev (d, h) = (d', h') \<and> templateManager d' = Some tm'
      \<and> accounted tm tm' new \<and> reported d d' new"
proof (cases "delivering d")
  case False
  then have "anchor_step lib ev (d, h) = (d, h)" by (simp add: anchor_step_def)
  with assms show ?thesis using accounted_refl reported_refl by blast
next
  case True
  obtain evs tm1 h1 where m:
    "(case ev of Arrive n \<Rightarrow> tm_notify lib (strategyHandler d) n (tm, h)
      | Tick \<Rightarrow> (case runPending tm of (evs, tm1) \<Rightarrow> (evs, tm1, h))) = (evs, tm1, h1)"
    by (metis prod_cases3)
  have a: "accounted tm tm1 evs"
  proof (cases ev)
    case (Arrive n)
    with m show ?thesis by (simp add: accounted_tm_notify)
  next
    case Tick
    with m show ?thesis by (auto split: prod.splits intro: accounted_runPending)
  qed
  let ?d0 = "d\<lparr>templateManager := Some tm1\<rparr>"
  have s: "anchor_step lib ev (d, h) = (deliver evs ?d0, h1)"
    using True assms m by (simp add: anchor_step_def)
  have rep0: "reported d ?d0 []"
    by (cases "renderObserver d") (simp_all add: reported_def)
  note D = deliver_reported[of ?d0 evs]
  from reported_trans[OF rep0 conjunct1[OF D]] have "reported d (deliver evs ?d0) evs" by simp
  moreover from D have "templateManager (deliver evs ?d0) = Some tm1" by simp
  ultimately show ?thesis using s a by blast
qed

lemma anchor_run_effect:
  assumes "templateManager d = Some tm"
  shows "\<exists>d' h' tm' new. anchor_run lib evs (d, h) = (d', h') \<and> templateManager d' = Some tm'
      \<and> accounted tm tm' new \<and> reported d d' new"
  using assms
proof (induction evs arbitrary: d h tm)
  case Nil
  then show ?case using accounted_refl reported_refl by auto
next
  case (Cons ev evs)
  from anchor_step_effect[OF Cons.prems, of lib ev h] obtain d1 h1 tm1 e1 where
    1: "anchor_step lib ev (d, h) = (d1, h1)" "templateManager d1 = Some tm1"
       "accounted tm tm1 e1" "reported d d1 e1" by blast
  from Cons.IH[OF 1(2), of h1] obtain d2 h2 tm2 e2 where
    2: "anchor_run lib evs (d1, h1) = (d2, h2)" "templateManager d2 = Some tm2"
       "accounted tm1 tm2 e2" "reported d1 d2 e2" by blast
  from 1(1) 2(1) have "anchor_run lib (ev # evs) (d, h) = (d2, h2)" by simp
  with 2(2) accounted_trans[OF 1(3) 2(3)] reported_trans[OF 1(4) 2(4)] show ?case by blast
qed

lemma ngOnChanges_manager:
  "templateManager (ngOnChanges lib d) =
     Some (case templateManager d of None \<Rightarrow> configured_manager lib d | Some tm \<Rightarrow> tm)"
  by (cases "templateManager d") (simp_all add: ngOnChanges_def createTemplateManager_of_def)


text \<open>
  C6. From \<^verbatim>\<open>ngOnInit\<close> on, through any sequence of arriving notifications and firings of
  the deferred strategy: the commits that ran, in order, are exactly the values emitted on
  \<^verbatim>\<open>rendered$\<close>, and exactly the values passed to the render observer when one is configured
  (one emission and one call per commit that ran, with the same value); and every commit
  request made in that time, together with one that waited before, either ran, or was
  dropped from the slot without running and so without an event, or still waits.
\<close>

theorem rendered_once_per_executed_commit:
  assumes "templateManager d = Some tm"
    and "ngOnInit lib (d, h) = Inr (d1, h1)"
    and "anchor_run lib evs (d1, h1) = (d2, h2)"
  shows "\<exists>tm2 new R D. templateManager d2 = Some tm2
      \<and> commits tm2 = commits tm @ new
      \<and> rendered_s d2 = rendered_s d @ new
      \<and> observer_calls d2 =
          observer_calls d @ (case renderObserver d of None \<Rightarrow> [] | Some ob \<Rightarrow> map (Pair ob) new)
      \<and> requested tm2 = requested tm @ R
      \<and> discarded tm2 = discarded tm @ D
      \<and> mset R + mset (slot (pending tm)) = mset new + mset D + mset (slot (pending tm2))"
proof -
  from ngOnInit_effect[OF assms(1), of lib h] assms(2) obtain tm1 e1 where
    1: "templateManager d1 = Some tm1" "accounted tm tm1 e1" "reported d d1 e1" by auto
  from anchor_run_effect[OF 1(1), of lib evs h1] assms(3) obtain tm2 e2 where
    2: "templateManager d2 = Some tm2" "accounted tm1 tm2 e2" "reported d1 d2 e2" by auto
  from accounted_trans[OF 1(2) 2(2)] have a: "accounted tm tm2 (e1 @ e2)" .
  from reported_trans[OF 1(3) 2(3)] have r: "reported d d2 (e1 @ e2)" .
  from a obtain R D where "commits tm2 = commits tm @ (e1 @ e2)"
    "requested tm2 = requested tm @ R" "discarded tm2 = discarded tm @ D"
    "mset R + mset (slot (pending tm)) = mset (e1 @ e2) + mset D + mset (slot (pending tm2))"
    unfolding accounted_def by blast
  moreover from r have "rendered_s d2 = rendered_s d @ (e1 @ e2)"
    "observer_calls d2 =
          observer_calls d @ (case renderObserver d of None \<Rightarrow> [] | Some ob \<Rightarrow> map (Pair ob) (e1 @ e2))"
    unfolding reported_def by simp_all
  ultimately show ?thesis using 2(1) by blast
qed


theorem rendered_once_per_executed_commit_witness:
  "templateManager example_directive = Some (configured_manager example_cdk
       (set_renderCallback (Some 1) (new_ScheduleOnDirective example_provider 0)))
   \<and> ngOnInit example_cdk (example_directive, []) =
       Inr (projr (ngOnInit example_cdk (example_directive, [])))
   \<and> rendered_s (fst (anchor_run example_cdk [Arrive (next_of (JSNumber 2)), Tick, Tick]
        (projr (ngOnInit example_cdk (example_directive, []))))) = [next_of (JSNumber 2)]
   \<and> observer_calls (fst (anchor_run example_cdk [Arrive (next_of (JSNumber 2)), Tick, Tick]
        (projr (ngOnInit example_cdk (example_directive, []))))) = [(1, next_of (JSNumber 2))]
   \<and> (\<exists>tm2. templateManager (fst (anchor_run example_cdk [Arrive (next_of (JSNumber 2)), Tick, Tick]
        (projr (ngOnInit example_cdk (example_directive, []))))) = Some tm2
        \<and> commits tm2 = [next_of (JSNumber 2)]
        \<and> discarded tm2 = [next_of (JSBool True)]
        \<and> pending tm2 = None)"
proof -
  let ?d0 = "set_renderCallback (Some 1) (new_ScheduleOnDirective example_provider 0)"
  let ?I = "ngOnInit example_cdk (example_directive, [])"
  let ?A = "anchor_run example_cdk [Arrive (next_of (JSNumber 2)), Tick, Tick] (projr ?I)"
  have h1: "templateManager example_directive = Some (configured_manager example_cdk ?d0)"
    by (simp add: example_directive_def ngOnChanges_manager set_renderCallback_def
          new_ScheduleOnDirective_def)
  have h2: "?I = Inr (fst (projr ?I), snd (projr ?I))"
    using ngOnInit_effect[OF h1, of example_cdk "[]"] by auto
  have h3: "anchor_run example_cdk [Arrive (next_of (JSNumber 2)), Tick, Tick]
              (fst (projr ?I), snd (projr ?I)) = (fst ?A, snd ?A)"
    by simp
  from rendered_once_per_executed_commit[OF h1 h2 h3] obtain tm2 new R D where
    r: "templateManager (fst ?A) = Some tm2"
       "commits tm2 = commits (configured_manager example_cdk ?d0) @ new"
       "rendered_s (fst ?A) = rendered_s example_directive @ new"
       "observer_calls (fst ?A) = observer_calls example_directive @
          (case renderObserver example_directive of None \<Rightarrow> [] | Some ob \<Rightarrow> map (Pair ob) new)"
    by blast
  have e1: "rendered_s (fst ?A) = [next_of (JSNumber 2)]"
    by (simp add: example_defs)
  have e0: "rendered_s example_directive = []" "observer_calls example_directive = []"
    "renderObserver example_directive = Some 1"
    "commits (configured_manager example_cdk ?d0) = []"
    by (simp_all add: example_defs)
  from r(3) e1 e0 have new: "new = [next_of (JSNumber 2)]" by simp
  have "map_option discarded (templateManager (fst ?A)) = Some [next_of (JSBool True)]"
    "map_option pending (templateManager (fst ?A)) = Some None"
    by (simp_all add: example_defs)
  with r(1) have e2: "discarded tm2 = [next_of (JSBool True)]" "pending tm2 = None"
    by simp_all
  from r new e0 e2 h1 h2 e1 show ?thesis by simp
qed


section \<open>What \<^verbatim>\<open>ngOnInit\<close> renders\<close>

text \<open>
  C2. Whatever the inputs of the directive are (strategy, render callback, parent and zone
  flags), once the manager exists \<^verbatim>\<open>ngOnInit\<close> returns normally and the stream it hands to
  the manager's \<^verbatim>\<open>render\<close> is exactly the one notification of kind Next with value
  \<^verbatim>\<open>true\<close> and \<^verbatim>\<open>hasValue\<close> true: no Suspense, Error or Complete notification, and nothing
  that comes from a bound source (the directive has no field for one). Without a manager
  (\<^verbatim>\<open>ngOnChanges\<close> never ran) \<^verbatim>\<open>ngOnInit\<close> raises TypeError before any stream is built.
\<close>

theorem ngOnInit_renders_single_next:
  assumes "templateManager d = Some tm"
  shows "\<exists>d1 h1 tm1. ngOnInit lib (d, h) = Inr (d1, h1) \<and> templateManager d1 = Some tm1
      \<and> render_args tm1 = render_args tm @
           [[\<lparr>n_value = JSBool True, hasValue = True, kind = Next, error = JSBool False, complete = False\<rparr>]]"
  using ngOnInit_effect[OF assms, of lib h] by blast

theorem ngOnInit_renders_single_next_witness:
  "templateManager example_directive = Some (configured_manager example_cdk
       (set_renderCallback (Some 1) (new_ScheduleOnDirective example_provider 0)))
   \<and> rendered_streams (ngOnInit example_cdk (example_directive, [])) =
       [[\<lparr>n_value = JSBool True, hasValue = True, kind = Next, error = JSBool False, complete = False\<rparr>]]"
proof -
  let ?d0 = "set_renderCallback (Some 1) (new_ScheduleOnDirective example_provider 0)"
  have h1: "templateManager example_directive = Some (configured_manager example_cdk ?d0)"
    by (simp add: example_directive_def ngOnChanges_manager set_renderCallback_def
          new_ScheduleOnDirective_def)
  from ngOnInit_renders_single_next[OF h1, of example_cdk "[]"] obtain d1 h' tm1 where
    "ngOnInit example_cdk (example_directive, []) = Inr (d1, h')" "templateManager d1 = Some tm1"
    "render_args tm1 = render_args (configured_manager example_cdk ?d0) @
       [[\<lparr>n_value = JSBool True, hasValue = True, kind = Next, error = JSBool False, complete = False\<rparr>]]"
    by blast
  then have "rendered_streams (ngOnInit example_cdk (example_directive, [])) =
       [[\<lparr>n_value = JSBool True, hasValue = True, kind = Next, error = JSBool False, complete = False\<rparr>]]"
    by (simp add: rendered_streams_def configured_manager_fresh)
  with h1 show ?thesis by simp
qed




section \<open>No Suspense notification\<close>

text \<open>
  C1, as stated, fails: for the example directive the notifications rendered by
  \<^verbatim>\<open>ngOnInit\<close> do not begin with a Suspense notification, and their number of Suspense
  notifications is 0, not 1.
\<close>

theorem suspense_before_next_counterexample:
  "\<not> suspense_first_once (concat (rendered_streams (ngOnInit example_cdk (example_directive, []))))
   \<and> length (filter is_suspense
        (concat (rendered_streams (ngOnInit example_cdk (example_directive, []))))) = 0"
  by (simp add: example_defs)

text \<open>
  C1, amended. The directive binds no source and produces no Suspense notification: once
  the manager exists, the stream \<^verbatim>\<open>ngOnInit\<close> hands to \<^verbatim>\<open>render\<close> holds no Suspense
  notification at all; it is one notification, of kind Next, emitted synchronously on
  subscription. So no Suspense notification is produced more than once, or after the first
  Next, Error or Complete.
\<close>

theorem ngOnInit_no_suspense:
  assumes "templateManager d = Some tm"
  shows "\<exists>s. rendered_streams (ngOnInit lib (d, h)) = render_args tm @ [s]
      \<and> filter is_suspense s = []
      \<and> map kind s = [Next]
      \<and> \<not> suspense_first_once s"
proof -
  from ngOnInit_effect[OF assms, of lib h] obtain d1 h1 tm1 where
    "ngOnInit lib (d, h) = Inr (d1, h1)" "templateManager d1 = Some tm1"
    "render_args tm1 = render_args tm @
       [[\<lparr>n_value = JSBool True, hasValue = True, kind = Next, error = JSBool False, complete = False\<rparr>]]"
    by blast
  then have "rendered_streams (ngOnInit lib (d, h)) = render_args tm @
       [[\<lparr>n_value = JSBool True, hasValue = True, kind = Next, error = JSBool False, complete = False\<rparr>]]"
    by (simp add: rendered_streams_def)
  then show ?thesis by (simp add: is_suspense_def)
qed

theorem ngOnInit_no_suspense_witness:
  "templateManager example_directive = Some (configured_manager example_cdk
       (set_renderCallback (Some 1) (new_ScheduleOnDirective example_provider 0)))
   \<and> filter is_suspense (concat (rendered_streams (ngOnInit example_cdk (example_directive, [])))) = []
   \<and> map kind (concat (rendered_streams (ngOnInit example_cdk (example_directive, [])))) = [Next]"
proof -
  let ?d0 = "set_renderCallback (Some 1) (new_ScheduleOnDirective example_provider 0)"
  have h1: "templateManager example_directive = Some (configured_manager example_cdk ?d0)"
    by (simp add: example_directive_def ngOnChanges_manager set_renderCallback_def
          new_ScheduleOnDirective_def)
  from ngOnInit_no_suspense[OF h1, of example_cdk "[]"] obtain s where
    "rendered_streams (ngOnInit example_cdk (example_directive, [])) =
       render_args (configured_manager example_cdk ?d0) @ [s]"
    "filter is_suspense s = []" "map kind s = [Next]" "\<not> suspense_first_once s"
    by (elim exE conjE)
  then have "filter is_suspense (concat (rendered_streams (ngOnInit example_cdk (example_directive, [])))) = []"
    "map kind (concat (rendered_streams (ngOnInit example_cdk (example_directive, [])))) = [Next]"
    by (simp_all add: configured_manager_fresh)
  with h1 show ?thesis by simp
qed

end
